theory Spec2Isabelle
  imports Main
begin

section \<open>Conflict resolution and hash cache of vscode-janus-debug (src/helpers.ts)\<close>

subsection \<open>Strings of the source\<close>

definition FORCE_UPLOAD_YES :: string where
  "FORCE_UPLOAD_YES = ''Yes''"

definition FORCE_UPLOAD_NO :: string where
  "FORCE_UPLOAD_NO = ''No''"

definition FORCE_UPLOAD_ALL :: string where
  "FORCE_UPLOAD_ALL = ''Yes (remember my answer for this operation)''"

definition FORCE_UPLOAD_NONE :: string where
  "FORCE_UPLOAD_NONE = ''No (remember my answer for this operation)''"

definition NO_CONFLICT :: string where
  "NO_CONFLICT = ''No conflict''"

subsection \<open>Script objects\<close>

text \<open>
  The fields of \<open>nodeDoc.scriptT\<close> that helpers.ts reads or writes. \<open>lastSyncHash\<close> is an
  optional string (\<open>None\<close> is JavaScript's \<open>undefined\<close>). \<open>conflict\<close> is an optional
  boolean in the source; \<open>undefined\<close> passes both of its tests (\<open>script.conflict\<close> and
  \<open>true !== script.conflict\<close>) exactly as \<open>false\<close> does, so it is a \<open>bool\<close> here.
\<close>

record script =
  name :: string
  lastSyncHash :: "string option"
  conflict :: bool
  conflictMode :: bool
  forceUpload :: bool

text \<open>JavaScript truthiness of an optional string: defined and not the empty string.\<close>

definition truthy :: "string option \<Rightarrow> bool" where
  "truthy h = (case h of None \<Rightarrow> False | Some s \<Rightarrow> s \<noteq> [])"

subsection \<open>askForUpload\<close>

text \<open>
  The promise of \<open>askForUpload\<close> either resolves at once with one of the constant strings,
  or it shows a quick pick (the list of answers, and the question as place holder) and
  resolves with whatever the quick pick returns.
\<close>

datatype ask =
    is_Resolve: Resolve string
  | is_ShowQuickPick: ShowQuickPick "string list" string

definition askForUpload :: "script \<Rightarrow> bool \<Rightarrow> bool \<Rightarrow> bool \<Rightarrow> ask" where
  "askForUpload s all none singlescript =
     (if conflict s \<or> \<not> truthy (lastSyncHash s) then
        (if all then Resolve FORCE_UPLOAD_ALL
         else if none then Resolve FORCE_UPLOAD_NONE
         else
           (let question =
                  (if truthy (lastSyncHash s)
                   then name s @ '' has been changed on server, upload anyway?''
                   else name s @ '' might have been changed on server, upload anyway?'');
                answers =
                  (if \<not> singlescript
                   then [FORCE_UPLOAD_YES, FORCE_UPLOAD_NO, FORCE_UPLOAD_ALL, FORCE_UPLOAD_NONE]
                   else [FORCE_UPLOAD_YES, FORCE_UPLOAD_NO])
            in ShowQuickPick answers question))
      else Resolve NO_CONFLICT)"

subsection \<open>ensureForceUpload\<close>

text \<open>
  Scripts are objects: \<open>ensureForceUpload\<close> writes to the fields of the elements of its input
  array and returns arrays of the same objects. An array of scripts is therefore a list of
  references into a store of script objects; the same reference may occur twice.
\<close>

type_synonym ref = nat

type_synonym store = "ref \<Rightarrow> script"

text \<open>
  The person at the quick pick: asked the k-th question of the batch (counted from 0), with
  the answers offered and the question, they pick an item or dismiss the pick (\<open>None\<close>,
  the \<open>undefined\<close> that \<open>showQuickPick\<close> then returns).
\<close>

type_synonym user = "nat \<Rightarrow> string list \<Rightarrow> string \<Rightarrow> string option"

text \<open>
  The local variables of \<open>ensureForceUpload\<close> (the arrays \<open>forceUpload\<close> and \<open>noConflict\<close>,
  the flags \<open>all\<close> and \<open>none\<close>), together with the store and the quick picks shown so far.
\<close>

record batch =
  objs :: store
  forceUploadArr :: "ref list"
  noConflictArr :: "ref list"
  allFlag :: bool
  noneFlag :: bool
  shown :: "(string list \<times> string) list"

text \<open>The body of \<open>.then((value) => ...)\<close>: what is done with the value \<open>askForUpload\<close> resolved with.\<close>

definition answered :: "string option \<Rightarrow> ref \<Rightarrow> batch \<Rightarrow> batch" where
  "answered v r st =
     (if v = Some NO_CONFLICT then
        st\<lparr>noConflictArr := noConflictArr st @ [r]\<rparr>
      else if v = Some FORCE_UPLOAD_ALL then
        st\<lparr>objs := (objs st)(r := (objs st r)\<lparr>conflict := False, forceUpload := True\<rparr>),
           forceUploadArr := forceUploadArr st @ [r],
           allFlag := True\<rparr>
      else if v = Some FORCE_UPLOAD_YES then
        st\<lparr>objs := (objs st)(r := (objs st r)\<lparr>conflict := False, forceUpload := True\<rparr>),
           forceUploadArr := forceUploadArr st @ [r]\<rparr>
      else if v = Some FORCE_UPLOAD_NO then st
      else st\<lparr>noneFlag := True\<rparr>)"

text \<open>One call of the reducer: \<open>askForUpload\<close> for the script, then the body above.\<close>

definition reducer :: "user \<Rightarrow> bool \<Rightarrow> batch \<Rightarrow> ref \<Rightarrow> batch" where
  "reducer u singlescript st r =
     (case askForUpload (objs st r) (allFlag st) (noneFlag st) singlescript of
        Resolve v \<Rightarrow> answered (Some v) r st
      | ShowQuickPick answers question \<Rightarrow>
          answered (u (length (shown st)) answers question) r
            (st\<lparr>shown := shown st @ [(answers, question)]\<rparr>))"

definition start :: "store \<Rightarrow> batch" where
  "start h = \<lparr>objs = h, forceUploadArr = [], noConflictArr = [],
              allFlag = False, noneFlag = False, shown = []\<rparr>"

text \<open>
  \<open>reduce\<close> (package reduce-for-promises) calls the reducer for one element after the
  other, each call after the promise of the one before has resolved: a left fold. The
  promise of \<open>ensureForceUpload\<close> resolves with \<open>[noConflict, forceUpload]\<close>, the fields
  \<open>noConflictArr\<close> and \<open>forceUploadArr\<close> of the state returned here.
\<close>

definition ensureForceUpload :: "user \<Rightarrow> store \<Rightarrow> ref list \<Rightarrow> batch" where
  "ensureForceUpload u h scripts =
     foldl (reducer u (1 = length scripts)) (start h) scripts"

text \<open>The test of \<open>askForUpload\<close> that sends a script to the flags or the quick pick.\<close>

definition undecided :: "script \<Rightarrow> bool" where
  "undecided s = (conflict s \<or> \<not> truthy (lastSyncHash s))"

subsection \<open>Strings: split, trim, join\<close>

text \<open>
  Strings are sequences of code units below 256. \<open>split c s\<close> is \<open>s.split(c)\<close> for a
  one-character separator: a character other than the separator is put in front of the
  first field of the rest. The result is never the empty array, so the case \<open>[]\<close> below is
  never taken.
\<close>

fun split :: "char \<Rightarrow> string \<Rightarrow> string list" where
  "split c [] = [[]]"
| "split c (x # xs) =
     (if x = c then [] # split c xs
      else (case split c xs of
              [] \<Rightarrow> [[x]]
            | y # ys \<Rightarrow> (x # y) # ys))"

definition LF :: char where
  "LF = CHR 0x0A"

text \<open>
  The white space that \<open>trim\<close> removes, among the code units below 256: tab, line feed,
  vertical tab, form feed, carriage return, space and no-break space.
\<close>

definition isWhiteSpace :: "char \<Rightarrow> bool" where
  "isWhiteSpace c =
     (c = CHR 0x09 \<or> c = CHR 0x0A \<or> c = CHR 0x0B \<or> c = CHR 0x0C \<or> c = CHR 0x0D
      \<or> c = CHR 0x20 \<or> c = CHR 0xA0)"

definition trim :: "string \<Rightarrow> string" where
  "trim s = rev (dropWhile isWhiteSpace (rev (dropWhile isWhiteSpace s)))"

fun join :: "string \<Rightarrow> string list \<Rightarrow> string" where
  "join sep [] = []"
| "join sep [x] = x"
| "join sep (x # y # ys) = x @ sep @ join sep (y # ys)"

text \<open>\<open>xs[i]\<close> of JavaScript: \<open>undefined\<close> out of range.\<close>

definition at :: "'a list \<Rightarrow> nat \<Rightarrow> 'a option" where
  "at xs i = (if i < length xs then Some (xs ! i) else None)"

text \<open>String concatenation with an optional string: \<open>undefined\<close> becomes the text "undefined".\<close>

definition toStr :: "string option \<Rightarrow> string" where
  "toStr h = (case h of None \<Rightarrow> ''undefined'' | Some s \<Rightarrow> s)"

subsection \<open>The workspace: cache file and settings\<close>

text \<open>
  What \<open>fs.readFileSync\<close> finds at the cache file's path: no file (the error code ENOENT),
  another failure, or the content.
\<close>

datatype file_state = ENOENT | EOTHER | Content string

text \<open>
  \<open>rootPath\<close> is \<open>vscode.workspace.rootPath\<close>; \<open>confForceUpload\<close> is the setting
  \<open>forceUpload\<close>, \<open>None\<close> when it is not an array; \<open>writable\<close> says whether a write to
  the cache file succeeds; \<open>warnings\<close> collects the warning messages shown.
\<close>

record workspace =
  rootPath :: "string option"
  cacheFile :: file_state
  writable :: bool
  confForceUpload :: "string list option"
  warnings :: "string list"

datatype error = WriteFileSyncFailed

subsection \<open>readConflictModes and readHashValues\<close>

definition readConflictModes :: "workspace \<Rightarrow> script list \<Rightarrow> workspace \<times> script list" where
  "readConflictModes w pscripts =
     (if pscripts = [] then (w, pscripts)
      else case confForceUpload w of
        None \<Rightarrow> (w\<lparr>warnings := warnings w @ [''Cannot write to settings.json'']\<rparr>, pscripts)
      | Some fu \<Rightarrow>
          (w, map (\<lambda>s. if name s \<in> set fu then s\<lparr>conflictMode := False\<rparr> else s) pscripts))"

text \<open>
  The body of \<open>hashValues.forEach\<close> in \<open>readHashValues\<close>: a line whose first field is
  \<open>name@server\<close> assigns its second field (\<open>undefined\<close> when there is none) to
  \<open>lastSyncHash\<close>.
\<close>

definition readLine :: "string \<Rightarrow> script \<Rightarrow> string \<Rightarrow> script" where
  "readLine server s v =
     (let scriptpart = hd (split (CHR '':'') v);
          scriptAtServer = name s @ ''@'' @ server
      in if scriptpart = scriptAtServer
         then s\<lparr>lastSyncHash := at (split (CHR '':'') v) 1\<rparr>
         else s)"

text \<open>
  The body of \<open>pscripts.forEach\<close> in \<open>readHashValues\<close>: an exempted script gets
  \<open>conflictMode = false\<close>; any other script is taken through the lines of the cache in
  their order.
\<close>

definition readOne :: "string list \<Rightarrow> string list \<Rightarrow> string \<Rightarrow> script \<Rightarrow> script" where
  "readOne fu hashValues server s =
     (if name s \<in> set fu then s\<lparr>conflictMode := False\<rparr>
      else foldl (readLine server) s hashValues)"

definition annotate :: "workspace \<Rightarrow> string list \<Rightarrow> script list \<Rightarrow> string
                        \<Rightarrow> workspace \<times> script list" where
  "annotate w hashValues pscripts server =
     (case confForceUpload w of
        None \<Rightarrow> (w\<lparr>warnings := warnings w @ [''Cannot write to settings.json'']\<rparr>, pscripts)
      | Some fu \<Rightarrow> (w, map (readOne fu hashValues server) pscripts))"

text \<open>
  \<open>readHashValues\<close>. The scripts are returned as they are after the call. When the file is
  missing it is created empty with \<open>fs.writeFileSync\<close>, outside the \<open>try\<close>: if that write
  fails its exception leaves the function.
\<close>

definition readHashValues :: "workspace \<Rightarrow> script list \<Rightarrow> string
                              \<Rightarrow> error + workspace \<times> script list" where
  "readHashValues w pscripts server =
     (if pscripts = [] then Inr (w, pscripts)
      else if \<not> truthy (rootPath w) then Inr (w, pscripts)
      else case cacheFile w of
        Content c \<Rightarrow> Inr (annotate w (split LF (trim c)) pscripts server)
      | ENOENT \<Rightarrow>
          (if writable w
           then Inr (annotate (w\<lparr>cacheFile := Content []\<rparr>) [] pscripts server)
           else Inl WriteFileSyncFailed)
      | EOTHER \<Rightarrow> Inr (w, pscripts))"

subsection \<open>updateHashValues\<close>

text \<open>
  Modelled from the spec: \<open>nodeDoc.writeFile\<close> (package node-documents-scripting) rewrites
  the file with the given string; a write that fails is dropped and not reported.
\<close>

definition writeFile :: "string \<Rightarrow> workspace \<Rightarrow> workspace" where
  "writeFile d w = (if writable w then w\<lparr>cacheFile := Content d\<rparr> else w)"

text \<open>The body of \<open>pscripts.forEach\<close> in \<open>updateHashValues\<close>, on the array \<open>hashValues\<close>.\<close>

definition updateEntry :: "string list \<Rightarrow> string \<Rightarrow> string list \<Rightarrow> script \<Rightarrow> string list" where
  "updateEntry fu server hashValues s =
     (if name s \<notin> set fu \<and> \<not> conflict s then
        (let scriptAtServer = name s @ ''@'' @ server;
             entry = scriptAtServer @ '':'' @ toStr (lastSyncHash s);
             updated = list_ex (\<lambda>v. hd (split (CHR '':'') v) = scriptAtServer) hashValues;
             hashValues' = map (\<lambda>v. if hd (split (CHR '':'') v) = scriptAtServer
                                      then entry else v) hashValues
         in if \<not> updated then hashValues' @ [entry] else hashValues')
      else hashValues)"

definition updateHashValues :: "workspace \<Rightarrow> script list \<Rightarrow> string \<Rightarrow> workspace" where
  "updateHashValues w pscripts server =
     (if pscripts = [] then w
      else if \<not> truthy (rootPath w) then w
      else case cacheFile w of
        Content c \<Rightarrow>
          (case confForceUpload w of
             None \<Rightarrow> w\<lparr>warnings := warnings w @ [''Cannot write to settings.json'']\<rparr>
           | Some fu \<Rightarrow>
               writeFile
                 (trim (join [LF] (foldl (updateEntry fu server) (split LF (trim c)) pscripts)))
                 w)
      | _ \<Rightarrow> w)"

text \<open>
  A hash that a cache line can hold and give back: it has no colon and no line feed, and
  it does not end in white space.
\<close>

definition storable :: "string \<Rightarrow> bool" where
  "storable h = (CHR '':'' \<notin> set h \<and> LF \<notin> set h \<and> (h = [] \<or> \<not> isWhiteSpace (last h)))"

text \<open>
  The entries of a cache file: the lines of its trimmed content; a blank file has none
  (\<open>split\<close> gives the one empty line for it, which no script matches).
\<close>

definition entries :: "string \<Rightarrow> string list" where
  "entries c = (if trim c = [] then [] else split LF (trim c))"

text \<open>
  Lines that \<open>join\<close>, \<open>trim\<close> and \<open>split\<close> give back as they are: no line has a line feed,
  the first line does not begin and the last line does not end with white space. A line
  that can stand anywhere among such lines is a \<open>goodline\<close>.
\<close>

definition tidy :: "string list \<Rightarrow> bool" where
  "tidy ls = ((\<forall>l \<in> set ls. LF \<notin> set l)
     \<and> (ls \<noteq> [] \<longrightarrow> hd ls \<noteq> [] \<and> \<not> isWhiteSpace (hd (hd ls))
           \<and> last ls \<noteq> [] \<and> \<not> isWhiteSpace (last (last ls))))"

definition goodline :: "string \<Rightarrow> bool" where
  "goodline e = (e \<noteq> [] \<and> LF \<notin> set e \<and> \<not> isWhiteSpace (hd e) \<and> \<not> isWhiteSpace (last e))"

subsection \<open>Example inputs\<close>

text \<open>
  Three script objects: s1 is known to have changed on the server, s2 has no stored hash,
  s3 is exempted, unconflicted and carries a hash.
\<close>

definition demo_store :: store where
  "demo_store r =
     (if r = 0 then \<lparr>name = ''s1'', lastSyncHash = Some ''x'', conflict = True,
                      conflictMode = True, forceUpload = False\<rparr>
      else if r = 1 then \<lparr>name = ''s2'', lastSyncHash = None, conflict = False,
                      conflictMode = True, forceUpload = False\<rparr>
      else \<lparr>name = ''s3'', lastSyncHash = Some ''z'', conflict = False,
                      conflictMode = False, forceUpload = False\<rparr>)"

text \<open>A person who gives the same answer to every quick pick.\<close>

definition always :: "string option \<Rightarrow> user" where
  "always v k answers question = v"

text \<open>A workspace with the given cache file and exemption list, and a fresh script.\<close>

definition demo_workspace :: "file_state \<Rightarrow> string list \<Rightarrow> workspace" where
  "demo_workspace f fu =
     \<lparr>rootPath = Some ''/ws'', cacheFile = f, writable = True,
      confForceUpload = Some fu, warnings = []\<rparr>"

definition new_script :: "string \<Rightarrow> string option \<Rightarrow> script" where
  "new_script n h = \<lparr>name = n, lastSyncHash = h, conflict = False,
                      conflictMode = True, forceUpload = False\<rparr>"

section \<open>Auxiliary facts\<close>

lemmas answer_defs =
  FORCE_UPLOAD_YES_def FORCE_UPLOAD_NO_def FORCE_UPLOAD_ALL_def FORCE_UPLOAD_NONE_def
  NO_CONFLICT_def

subsection \<open>The reducer and the fold\<close>

lemma answered_dismiss:
  "answered None r st = st\<lparr>noneFlag := True\<rparr>"
  by (simp add: answered_def)

lemma answered_none:
  "answered (Some FORCE_UPLOAD_NONE) r st = st\<lparr>noneFlag := True\<rparr>"
  by (simp add: answered_def answer_defs)

lemma reducer_all:
  "allFlag st \<Longrightarrow> reducer u sg st r =
     (if undecided (objs st r)
      then st\<lparr>objs := (objs st)(r := (objs st r)\<lparr>conflict := False, forceUpload := True\<rparr>),
              forceUploadArr := forceUploadArr st @ [r]\<rparr>
      else st\<lparr>noConflictArr := noConflictArr st @ [r]\<rparr>)"
  by (simp add: reducer_def askForUpload_def answered_def undecided_def answer_defs)

lemma reducer_none:
  "noneFlag st \<Longrightarrow> \<not> allFlag st \<Longrightarrow> reducer u sg st r =
     (if undecided (objs st r) then st
      else st\<lparr>noConflictArr := noConflictArr st @ [r]\<rparr>)"
  by (simp add: reducer_def askForUpload_def answered_def undecided_def answer_defs)

lemma reducer_arrays:
  "(noConflictArr (reducer u sg st r) = noConflictArr st \<and>
      forceUploadArr (reducer u sg st r) = forceUploadArr st)
   \<or> (noConflictArr (reducer u sg st r) = noConflictArr st @ [r] \<and>
      forceUploadArr (reducer u sg st r) = forceUploadArr st)
   \<or> (noConflictArr (reducer u sg st r) = noConflictArr st \<and>
      forceUploadArr (reducer u sg st r) = forceUploadArr st @ [r])"
  by (simp add: reducer_def answered_def split: ask.split)

lemma reducer_allFlag_mono: "allFlag st \<Longrightarrow> allFlag (reducer u sg st r)"
  by (simp add: reducer_def answered_def split: ask.split)

lemma reducer_noneFlag_mono: "noneFlag st \<Longrightarrow> noneFlag (reducer u sg st r)"
  by (simp add: reducer_def answered_def split: ask.split)

lemma reducer_flags_excl:
  "\<not> (allFlag st \<and> noneFlag st) \<Longrightarrow>
   \<not> (allFlag (reducer u sg st r) \<and> noneFlag (reducer u sg st r))"
  by (cases "undecided (objs st r)"; cases "allFlag st"; cases "noneFlag st")
     (simp_all add: reducer_def answered_def askForUpload_def undecided_def Let_def answer_defs)


lemma reducer_other_unchanged: "r \<noteq> x \<Longrightarrow> objs (reducer u sg st x) r = objs st r"
  by (simp add: reducer_def answered_def split: ask.split)

lemma answered_forced_persists:
  "forceUpload (objs st r) \<and> \<not> conflict (objs st r) \<Longrightarrow>
   forceUpload (objs (answered v x st) r) \<and> \<not> conflict (objs (answered v x st) r)"
  by (cases "r = x") (simp_all add: answered_def)

lemma reducer_forced_persists:
  "forceUpload (objs st r) \<and> \<not> conflict (objs st r) \<Longrightarrow>
   forceUpload (objs (reducer u sg st x) r) \<and> \<not> conflict (objs (reducer u sg st x) r)"
  unfolding reducer_def
  by (cases "askForUpload (objs st x) (allFlag st) (noneFlag st) sg")
     (simp_all add: answered_forced_persists)

lemma foldl_allFlag_mono: "allFlag st \<Longrightarrow> allFlag (foldl (reducer u sg) st xs)"
  by (induction xs arbitrary: st) (simp_all add: reducer_allFlag_mono)

lemma foldl_noneFlag_mono: "noneFlag st \<Longrightarrow> noneFlag (foldl (reducer u sg) st xs)"
  by (induction xs arbitrary: st) (simp_all add: reducer_noneFlag_mono)

lemma foldl_flags_excl:
  "\<not> (allFlag st \<and> noneFlag st) \<Longrightarrow>
   \<not> (allFlag (foldl (reducer u sg) st xs) \<and> noneFlag (foldl (reducer u sg) st xs))"
proof (induction xs arbitrary: st)
  case Nil
  then show ?case by simp
next
  case (Cons x xs)
  from Cons.prems have "\<not> (allFlag (reducer u sg st x) \<and> noneFlag (reducer u sg st x))"
    by (rule reducer_flags_excl)
  from Cons.IH [OF this] show ?case by simp
qed

lemma foldl_forceUploadArr_grows:
  "set (forceUploadArr st) \<subseteq> set (forceUploadArr (foldl (reducer u sg) st xs))"
proof (induction xs arbitrary: st)
  case Nil
  show ?case by simp
next
  case (Cons x xs)
  have "set (forceUploadArr st) \<subseteq> set (forceUploadArr (reducer u sg st x))"
    using reducer_arrays [of u sg st x] by auto
  with Cons.IH [of "reducer u sg st x"] show ?case by auto
qed

lemma foldl_noConflictArr_grows:
  "set (noConflictArr st) \<subseteq> set (noConflictArr (foldl (reducer u sg) st xs))"
proof (induction xs arbitrary: st)
  case Nil
  show ?case by simp
next
  case (Cons x xs)
  have "set (noConflictArr st) \<subseteq> set (noConflictArr (reducer u sg st x))"
    using reducer_arrays [of u sg st x] by auto
  with Cons.IH [of "reducer u sg st x"] show ?case by auto
qed

lemma foldl_forced_persists:
  "forceUpload (objs st r) \<and> \<not> conflict (objs st r) \<Longrightarrow>
   forceUpload (objs (foldl (reducer u sg) st xs) r)
   \<and> \<not> conflict (objs (foldl (reducer u sg) st xs) r)"
proof (induction xs arbitrary: st)
  case Nil
  then show ?case by simp
next
  case (Cons x xs)
  from Cons.IH [OF reducer_forced_persists [OF Cons.prems]] show ?case by simp
qed

lemma foldl_all_shown:
  "allFlag st \<Longrightarrow> shown (foldl (reducer u sg) st xs) = shown st"
proof (induction xs arbitrary: st)
  case Nil
  show ?case by simp
next
  case (Cons x xs)
  have a: "allFlag (reducer u sg st x)"
    using Cons.prems by (rule reducer_allFlag_mono)
  have "shown (reducer u sg st x) = shown st"
    using Cons.prems by (simp add: reducer_all)
  with Cons.IH [OF a] show ?case by simp
qed

lemma foldl_all_decided:
  "allFlag st \<Longrightarrow> \<not> undecided (objs st r) \<Longrightarrow>
   objs (foldl (reducer u sg) st xs) r = objs st r
   \<and> (r \<in> set xs \<longrightarrow> r \<in> set (noConflictArr (foldl (reducer u sg) st xs)))"
proof (induction xs arbitrary: st)
  case Nil
  show ?case by simp
next
  case (Cons x xs)
  let ?st1 = "reducer u sg st x"
  have a: "allFlag ?st1"
    using Cons.prems(1) by (rule reducer_allFlag_mono)
  have same: "objs ?st1 r = objs st r"
    using Cons.prems by (cases "r = x") (simp_all add: reducer_all)
  then have d: "\<not> undecided (objs ?st1 r)"
    using Cons.prems(2) by simp
  have here: "r = x \<Longrightarrow> r \<in> set (noConflictArr ?st1)"
    using Cons.prems by (simp add: reducer_all)
  from Cons.IH [OF a d] same here foldl_noConflictArr_grows [of ?st1 u sg xs]
  show ?case by auto
qed

lemma foldl_all_undecided:
  "allFlag st \<Longrightarrow> undecided (objs st r) \<Longrightarrow> r \<in> set xs \<Longrightarrow>
   r \<in> set (forceUploadArr (foldl (reducer u sg) st xs))
   \<and> forceUpload (objs (foldl (reducer u sg) st xs) r)
   \<and> \<not> conflict (objs (foldl (reducer u sg) st xs) r)"
proof (induction xs arbitrary: st)
  case Nil
  then show ?case by simp
next
  case (Cons x xs)
  let ?st1 = "reducer u sg st x"
  have a: "allFlag ?st1"
    using Cons.prems(1) by (rule reducer_allFlag_mono)
  show ?case
  proof (cases "r = x")
    case True
    have in1: "r \<in> set (forceUploadArr ?st1)"
      and f1: "forceUpload (objs ?st1 r) \<and> \<not> conflict (objs ?st1 r)"
      using Cons.prems True by (simp_all add: reducer_all)
    from in1 foldl_forceUploadArr_grows [of ?st1 u sg xs] foldl_forced_persists [OF f1, of u sg xs]
    show ?thesis by auto
  next
    case False
    then have "objs ?st1 r = objs st r"
      by (rule reducer_other_unchanged)
    then have d: "undecided (objs ?st1 r)"
      using Cons.prems(2) by simp
    from False Cons.prems(3) have "r \<in> set xs" by simp
    from Cons.IH [OF a d this] show ?thesis by simp
  qed
qed

lemma foldl_none_rest:
  "noneFlag st \<Longrightarrow> \<not> allFlag st \<Longrightarrow>
   foldl (reducer u sg) st xs =
     st\<lparr>noConflictArr := noConflictArr st @ filter (\<lambda>r. \<not> undecided (objs st r)) xs\<rparr>"
proof (induction xs arbitrary: st)
  case Nil
  show ?case by simp
next
  case (Cons x xs)
  show ?case
  proof (cases "undecided (objs st x)")
    case True
    then have "reducer u sg st x = st"
      using Cons.prems by (simp add: reducer_none)
    with Cons.IH [OF Cons.prems] True show ?thesis by simp
  next
    case False
    let ?st1 = "st\<lparr>noConflictArr := noConflictArr st @ [x]\<rparr>"
    have r: "reducer u sg st x = ?st1"
      using Cons.prems False by (simp add: reducer_none)
    have "noneFlag ?st1" "\<not> allFlag ?st1"
      using Cons.prems by simp_all
    from Cons.IH [OF this] r False show ?thesis by simp
  qed
qed

lemma foldl_arrays_subset:
  "set (noConflictArr (foldl (reducer u sg) st xs)) \<subseteq> set (noConflictArr st) \<union> set xs
   \<and> set (forceUploadArr (foldl (reducer u sg) st xs)) \<subseteq> set (forceUploadArr st) \<union> set xs
   \<and> length (noConflictArr (foldl (reducer u sg) st xs))
       + length (forceUploadArr (foldl (reducer u sg) st xs))
       \<le> length (noConflictArr st) + length (forceUploadArr st) + length xs"
proof (induction xs arbitrary: st)
  case Nil
  show ?case by simp
next
  case (Cons x xs)
  from Cons.IH [of "reducer u sg st x"] reducer_arrays [of u sg st x]
  show ?case by auto
qed

lemma foldl_arrays_disjoint:
  "distinct xs \<Longrightarrow>
   set xs \<inter> (set (noConflictArr st) \<union> set (forceUploadArr st)) = {} \<Longrightarrow>
   set (noConflictArr st) \<inter> set (forceUploadArr st) = {} \<Longrightarrow>
   set (noConflictArr (foldl (reducer u sg) st xs))
     \<inter> set (forceUploadArr (foldl (reducer u sg) st xs)) = {}"
proof (induction xs arbitrary: st)
  case Nil
  then show ?case by simp
next
  case (Cons x xs)
  let ?st1 = "reducer u sg st x"
  have d: "distinct xs" using Cons.prems(1) by simp
  have a: "set xs \<inter> (set (noConflictArr ?st1) \<union> set (forceUploadArr ?st1)) = {}"
    using Cons.prems(1,2) reducer_arrays [of u sg st x] by auto
  have b: "set (noConflictArr ?st1) \<inter> set (forceUploadArr ?st1) = {}"
    using Cons.prems(2,3) reducer_arrays [of u sg st x] by auto
  from Cons.IH [OF d a b] show ?case by simp
qed

lemma start_flags: "\<not> (allFlag (start h) \<and> noneFlag (start h))"
  by (simp add: start_def)

lemma reducer_dismiss_as_none:
  "reducer (\<lambda>k a q. case u k a q of None \<Rightarrow> Some FORCE_UPLOAD_NONE | Some v \<Rightarrow> Some v) sg
     = reducer u sg"
proof (intro ext)
  fix st r
  have "answered (case v of None \<Rightarrow> Some FORCE_UPLOAD_NONE | Some v \<Rightarrow> Some v) r s
          = answered v r s" for v s
    by (cases v) (simp_all add: answered_dismiss answered_none)
  then show "reducer (\<lambda>k a q. case u k a q of None \<Rightarrow> Some FORCE_UPLOAD_NONE | Some v \<Rightarrow> Some v) sg st r
     = reducer u sg st r"
    by (simp add: reducer_def split: ask.split)
qed

lemmas batch_defs =
  ensureForceUpload_def reducer_def answered_def askForUpload_def start_def truthy_def
  undecided_def demo_store_def always_def answer_defs

lemmas cache_defs =
  readHashValues_def annotate_def readOne_def readLine_def updateHashValues_def updateEntry_def writeFile_def
  trim_def isWhiteSpace_def LF_def at_def toStr_def truthy_def demo_workspace_def new_script_def

subsection \<open>split, join and trim\<close>

lemma split_nonempty: "split c s \<noteq> []"
  by (induction s) (simp_all split: list.split)

lemma split_notin: "c \<notin> set s \<Longrightarrow> split c s = [s]"
  by (induction s) auto

lemma split_append: "c \<notin> set s \<Longrightarrow> split c (s @ c # t) = s # split c t"
  by (induction s) auto

lemma hd_split_key: "c \<notin> set k \<Longrightarrow> hd (split c (k @ c # t)) = k"
  by (simp add: split_append)

lemma hd_split_no_sep: "c \<notin> set (hd (split c s))"
  by (induction s) (auto split: list.split)

lemma join_Cons_Cons: "join sep ((x # y) # ys) = x # join sep (y # ys)"
  by (cases ys) simp_all

lemma join_Nil_Cons: "ys \<noteq> [] \<Longrightarrow> join sep ([] # ys) = sep @ join sep ys"
  by (cases ys) simp_all

lemma join_split: "join [c] (split c s) = s"
proof (induction s)
  case Nil
  show ?case by simp
next
  case (Cons x xs)
  obtain y ys where sp: "split c xs = y # ys"
    using split_nonempty [of c xs] by (cases "split c xs") auto
  show ?case
  proof (cases "x = c")
    case True
    then show ?thesis
      using Cons.IH by (simp add: join_Nil_Cons split_nonempty)
  next
    case False
    then show ?thesis
      using Cons.IH sp by (simp add: join_Cons_Cons)
  qed
qed

lemma dropWhile_id_hd: "xs \<noteq> [] \<Longrightarrow> \<not> P (hd xs) \<Longrightarrow> dropWhile P xs = xs"
  by (cases xs) simp_all

lemma trim_id:
  "s = [] \<or> (\<not> isWhiteSpace (hd s) \<and> \<not> isWhiteSpace (last s)) \<Longrightarrow> trim s = s"
proof (cases s)
  case Nil
  then show ?thesis by (simp add: trim_def)
next
  case (Cons x xs)
  assume "s = [] \<or> (\<not> isWhiteSpace (hd s) \<and> \<not> isWhiteSpace (last s))"
  with Cons have h: "\<not> isWhiteSpace (hd s)" and l: "\<not> isWhiteSpace (last s)" by auto
  from h Cons have a: "dropWhile isWhiteSpace s = s" by simp
  from Cons have "rev s \<noteq> []" by simp
  moreover from Cons have "hd (rev s) = last s" by (simp add: hd_rev)
  ultimately have "dropWhile isWhiteSpace (rev s) = rev s"
    using l by (simp add: dropWhile_id_hd)
  with a show ?thesis by (simp add: trim_def)
qed

lemma dropWhile_hd: "dropWhile P xs \<noteq> [] \<Longrightarrow> \<not> P (hd (dropWhile P xs))"
  by (metis hd_dropWhile)

lemma trim_ends:
  "trim s = [] \<or> (\<not> isWhiteSpace (hd (trim s)) \<and> \<not> isWhiteSpace (last (trim s)))"
proof (cases "trim s = []")
  case True
  then show ?thesis by simp
next
  case False
  let ?t = "dropWhile isWhiteSpace s"
  let ?u = "dropWhile isWhiteSpace (rev ?t)"
  have tr: "trim s = rev ?u" by (simp add: trim_def)
  with False have u: "?u \<noteq> []" by simp
  have t: "?t \<noteq> []"
  proof
    assume e: "?t = []"
    have "?u = []" unfolding e by simp
    with u show False by simp
  qed
  have "last (trim s) = hd ?u" using u tr by (simp add: last_rev)
  then have l: "\<not> isWhiteSpace (last (trim s))"
    using dropWhile_hd [OF u] by simp
  obtain k where k: "rev ?t = k @ ?u"
    by (metis takeWhile_dropWhile_id)
  then have "?t = rev ?u @ rev k" by (metis rev_append rev_rev_ident)
  then have "hd ?t = hd (rev ?u)" using u by (metis hd_append2 rev_is_Nil_conv)
  then have "\<not> isWhiteSpace (hd (trim s))"
    using dropWhile_hd [OF t] tr by simp
  with l show ?thesis by simp
qed

lemma trim_idem: "trim (trim s) = trim s"
  using trim_ends [of s] by (rule trim_id)

subsection \<open>The cache functions\<close>

lemma updateEntry_skip:
  "name s \<in> set fu \<or> conflict s \<Longrightarrow> updateEntry fu server hv s = hv"
  by (auto simp add: updateEntry_def)

lemma foldl_updateEntry_filter:
  "foldl (updateEntry fu server) hv ps
     = foldl (updateEntry fu server) hv (filter (\<lambda>s. name s \<notin> set fu \<and> \<not> conflict s) ps)"
  by (induction ps arbitrary: hv) (simp_all add: updateEntry_skip)

lemma foldl_updateEntry_none:
  "\<forall>s \<in> set ps. name s \<in> set fu \<or> conflict s \<Longrightarrow> foldl (updateEntry fu server) hv ps = hv"
  by (induction ps arbitrary: hv) (simp_all add: updateEntry_skip)

lemma updateHashValues_normal:
  "truthy (rootPath w) \<Longrightarrow> cacheFile w = Content c \<Longrightarrow> confForceUpload w = Some fu \<Longrightarrow>
   ps \<noteq> [] \<Longrightarrow>
   updateHashValues w ps srv =
     writeFile (trim (join [LF] (foldl (updateEntry fu srv) (split LF (trim c)) ps))) w"
  by (simp add: updateHashValues_def)

lemma readHashValues_normal:
  "truthy (rootPath w) \<Longrightarrow> cacheFile w = Content c \<Longrightarrow> confForceUpload w = Some fu \<Longrightarrow>
   ps \<noteq> [] \<Longrightarrow>
   readHashValues w ps srv = Inr (w, map (readOne fu (split LF (trim c)) srv) ps)"
  by (simp add: readHashValues_def annotate_def)

lemma updateHashValues_cacheFile:
  "cacheFile (updateHashValues w ps srv) = cacheFile w
   \<or> (\<exists>c fu. cacheFile w = Content c \<and> confForceUpload w = Some fu
        \<and> cacheFile (updateHashValues w ps srv)
            = Content (trim (join [LF] (foldl (updateEntry fu srv) (split LF (trim c)) ps))))"
  by (simp add: updateHashValues_def writeFile_def split: file_state.split option.split)

lemma readLine_name: "name (readLine server s v) = name s"
  by (simp add: readLine_def Let_def)

lemma readLine_nomatch:
  "hd (split (CHR '':'') v) \<noteq> name s @ ''@'' @ server \<Longrightarrow> readLine server s v = s"
  by (simp add: readLine_def)

lemma readLine_match:
  "hd (split (CHR '':'') v) = name s @ ''@'' @ server \<Longrightarrow>
   readLine server s v = s\<lparr>lastSyncHash := at (split (CHR '':'') v) 1\<rparr>"
  by (simp add: readLine_def)


lemma foldl_readLine_shape:
  "\<exists>x. foldl (readLine server) s ls = s\<lparr>lastSyncHash := x\<rparr>"
proof (induction ls arbitrary: s)
  case Nil
  have "s = s\<lparr>lastSyncHash := lastSyncHash s\<rparr>" by simp
  then show ?case by (metis foldl_Nil)
next
  case (Cons l ls)
  obtain x where x: "foldl (readLine server) (readLine server s l) ls
      = (readLine server s l)\<lparr>lastSyncHash := x\<rparr>"
    using Cons.IH by blast
  have "(readLine server s l)\<lparr>lastSyncHash := x\<rparr> = s\<lparr>lastSyncHash := x\<rparr>"
    by (simp add: readLine_def Let_def)
  with x show ?case by auto
qed

lemma at_split_field:
  "c \<notin> set k \<Longrightarrow> c \<notin> set h \<Longrightarrow> rest = [] \<or> hd rest = c \<Longrightarrow>
   at (split c (k @ c # h @ rest)) 1 = Some h"
proof (cases rest)
  case Nil
  assume "c \<notin> set k" "c \<notin> set h"
  with Nil show ?thesis by (simp add: split_append split_notin at_def)
next
  case (Cons x xs)
  assume "c \<notin> set k" "c \<notin> set h" "rest = [] \<or> hd rest = c"
  with Cons show ?thesis by (simp add: split_append at_def)
qed


lemma trim_LF: "trim (LF # s) = trim s"
  by (simp add: trim_def isWhiteSpace_def LF_def)

lemma entry_trim:
  "h = [] \<or> \<not> isWhiteSpace (last h) \<Longrightarrow> \<not> isWhiteSpace x \<Longrightarrow>
   trim (x # k @ CHR '':'' # h) = x # k @ CHR '':'' # h"
  by (rule trim_id) (auto simp add: isWhiteSpace_def)

lemma map_no_match: "\<not> list_ex P hv \<Longrightarrow> map (\<lambda>v. if P v then e else v) hv = hv"
  by (induction hv) simp_all

lemma updateEntry_eligible:
  "name s \<notin> set fu \<Longrightarrow> \<not> conflict s \<Longrightarrow>
   updateEntry fu server hv s =
     (if list_ex (\<lambda>v. hd (split (CHR '':'') v) = name s @ ''@'' @ server) hv
      then map (\<lambda>v. if hd (split (CHR '':'') v) = name s @ ''@'' @ server
                     then name s @ ''@'' @ server @ '':'' @ toStr (lastSyncHash s) else v) hv
      else hv @ [name s @ ''@'' @ server @ '':'' @ toStr (lastSyncHash s)])"
  by (simp add: updateEntry_def Let_def map_no_match)

lemma map_keys_replace:
  "f e = k \<Longrightarrow> map f (map (\<lambda>v. if f v = k then e else v) hv) = map f hv"
  by (induction hv) simp_all

lemma entry_key:
  "CHR '':'' \<notin> set (n @ ''@'' @ server) \<Longrightarrow>
   hd (split (CHR '':'') (n @ ''@'' @ server @ '':'' @ h)) = n @ ''@'' @ server"
  using hd_split_key [of "CHR '':''" "n @ ''@'' @ server" h] by simp

lemma updateEntry_keys_distinct:
  assumes "distinct (map (\<lambda>v. hd (split (CHR '':'') v)) hv)"
    and "CHR '':'' \<notin> set (name s @ ''@'' @ server)"
  shows "distinct (map (\<lambda>v. hd (split (CHR '':'') v)) (updateEntry fu server hv s))"
proof (cases "name s \<notin> set fu \<and> \<not> conflict s")
  case False
  then have "updateEntry fu server hv s = hv" by (auto simp add: updateEntry_skip)
  with assms(1) show ?thesis by simp
next
  case True
  then have el: "name s \<notin> set fu" "\<not> conflict s" by simp_all
  let ?key = "name s @ ''@'' @ server"
  let ?entry = "name s @ ''@'' @ server @ '':'' @ toStr (lastSyncHash s)"
  have k: "hd (split (CHR '':'') ?entry) = ?key"
    using assms(2) by (rule entry_key)
  show ?thesis
  proof (cases "list_ex (\<lambda>v. hd (split (CHR '':'') v) = ?key) hv")
    case True
    then have e: "updateEntry fu server hv s
        = map (\<lambda>v. if hd (split (CHR '':'') v) = ?key then ?entry else v) hv"
      by (simp only: updateEntry_eligible [OF el] if_True)
    show ?thesis
      unfolding e map_keys_replace [of "\<lambda>v. hd (split (CHR '':'') v)", OF k]
      by (fact assms(1))
  next
    case False
    then have e: "updateEntry fu server hv s = hv @ [?entry]"
      by (simp only: updateEntry_eligible [OF el] if_False)
    from False have "?key \<notin> set (map (\<lambda>v. hd (split (CHR '':'') v)) hv)"
      by (auto simp add: list_ex_iff)
    then show ?thesis
      unfolding e using assms(1) k by (simp only: map_append list.map distinct_append distinct.simps set_simps, auto)
  qed
qed

lemma trim_Nil: "trim [] = []"
  by (simp add: trim_def)

lemma writeFile_writable: "writable w \<Longrightarrow> writeFile d w = w\<lparr>cacheFile := Content d\<rparr>"
  by (simp add: writeFile_def)

lemma entry_facts:
  assumes "CHR '':'' \<notin> set srv" and "LF \<notin> set srv" and "storable h"
    and "CHR '':'' \<notin> set n" and "LF \<notin> set n" and "n \<noteq> []" and "\<not> isWhiteSpace (hd n)"
  shows "trim (n @ ''@'' @ srv @ '':'' @ h) = n @ ''@'' @ srv @ '':'' @ h"
    and "split LF (n @ ''@'' @ srv @ '':'' @ h) = [n @ ''@'' @ srv @ '':'' @ h]"
    and "hd (split (CHR '':'') (n @ ''@'' @ srv @ '':'' @ h)) = n @ ''@'' @ srv"
    and "at (split (CHR '':'') (n @ ''@'' @ srv @ '':'' @ h)) 1 = Some h"
proof -
  from assms(3) have h: "CHR '':'' \<notin> set h" "LF \<notin> set h" "h = [] \<or> \<not> isWhiteSpace (last h)"
    by (simp_all add: storable_def)
  show "trim (n @ ''@'' @ srv @ '':'' @ h) = n @ ''@'' @ srv @ '':'' @ h"
    by (rule trim_id) (use assms(6,7) h(3) in \<open>auto simp add: isWhiteSpace_def\<close>)
  show "split LF (n @ ''@'' @ srv @ '':'' @ h) = [n @ ''@'' @ srv @ '':'' @ h]"
    by (rule split_notin) (use assms(2,5) h(2) in \<open>simp add: LF_def\<close>)
  have k: "CHR '':'' \<notin> set (n @ ''@'' @ srv)"
    using assms(1,4) by simp
  then show "hd (split (CHR '':'') (n @ ''@'' @ srv @ '':'' @ h)) = n @ ''@'' @ srv"
    by (rule entry_key)
  show "at (split (CHR '':'') (n @ ''@'' @ srv @ '':'' @ h)) 1 = Some h"
    using at_split_field [OF k h(1), of "[]"] by simp
qed

lemma update_first:
  assumes "truthy (rootPath w)" and "writable w" and "cacheFile w = Content []"
    and "confForceUpload w = Some fu"
    and "name s \<notin> set fu" and "\<not> conflict s" and "lastSyncHash s = Some h"
    and "CHR '':'' \<notin> set srv" and "LF \<notin> set srv" and "storable h"
    and "CHR '':'' \<notin> set (name s)" and "LF \<notin> set (name s)" and "name s \<noteq> []"
    and "\<not> isWhiteSpace (hd (name s))"
  shows "updateHashValues w [s] srv
           = w\<lparr>cacheFile := Content (name s @ ''@'' @ srv @ '':'' @ h)\<rparr>"
proof -
  let ?e = "name s @ ''@'' @ srv @ '':'' @ h"
  have "updateEntry fu srv [[]] s = [[], ?e]"
    using assms(5,6,7) by (simp add: updateEntry_eligible toStr_def)
  then have "trim (join [LF] (foldl (updateEntry fu srv) (split LF (trim [])) [s])) = trim ?e"
    by (simp add: trim_Nil trim_LF)
  also have "\<dots> = ?e"
    using assms(8-14) by (rule entry_facts(1))
  finally show ?thesis
    using assms(1-4) by (simp add: updateHashValues_normal writeFile_writable)
qed

subsection \<open>Lines of the cache file\<close>

lemma split_lines_no_sep: "l \<in> set (split c s) \<Longrightarrow> c \<notin> set l"
  by (induction s arbitrary: l) (auto split: list.splits if_splits)

lemma split_hd: "s \<noteq> [] \<Longrightarrow> hd s \<noteq> c \<Longrightarrow> hd (split c s) \<noteq> [] \<and> hd (hd (split c s)) = hd s"
  by (cases s) (auto split: list.splits)

lemma split_last:
  "s \<noteq> [] \<Longrightarrow> last s \<noteq> c \<Longrightarrow> last (split c s) \<noteq> [] \<and> last (last (split c s)) = last s"
proof (induction s)
  case Nil
  then show ?case by simp
next
  case (Cons x xs)
  show ?case
  proof (cases "xs = []")
    case True
    with Cons.prems show ?thesis by simp
  next
    case False
    with Cons.prems have l: "last xs \<noteq> c" by simp
    from Cons.IH [OF False l] have ih: "last (split c xs) \<noteq> []"
      "last (last (split c xs)) = last xs" by simp_all
    obtain y ys where sp: "split c xs = y # ys"
      using split_nonempty [of c xs] by (cases "split c xs") auto
    show ?thesis
      using ih sp False by (cases "ys = []") auto
  qed
qed

lemma isWhiteSpace_LF: "isWhiteSpace LF"
  by (simp add: isWhiteSpace_def LF_def)

lemma tidy_split_trim: "trim c \<noteq> [] \<Longrightarrow> tidy (split LF (trim c))"
proof -
  assume ne: "trim c \<noteq> []"
  with trim_ends [of c] have e: "\<not> isWhiteSpace (hd (trim c))" "\<not> isWhiteSpace (last (trim c))"
    by simp_all
  then have "hd (trim c) \<noteq> LF" "last (trim c) \<noteq> LF"
    using isWhiteSpace_LF by auto
  with split_hd [OF ne, of LF] split_last [OF ne, of LF] e split_lines_no_sep [of _ LF "trim c"]
  show ?thesis by (auto simp add: tidy_def)
qed

lemma tidy_entries: "tidy (entries c)"
  using tidy_split_trim [of c] by (simp add: entries_def tidy_def)

lemma join_nonempty: "ls \<noteq> [] \<Longrightarrow> hd ls \<noteq> [] \<Longrightarrow> join sep ls \<noteq> [] \<and> hd (join sep ls) = hd (hd ls)"
  by (induction sep ls rule: join.induct) auto

lemma join_nonempty_last: "ls \<noteq> [] \<Longrightarrow> last ls \<noteq> [] \<Longrightarrow> join sep ls \<noteq> []"
  by (induction sep ls rule: join.induct) auto

lemma join_last: "ls \<noteq> [] \<Longrightarrow> last ls \<noteq> [] \<Longrightarrow> last (join sep ls) = last (last ls)"
proof (induction sep ls rule: join.induct)
  case (3 sep x y ys)
  then have "join sep (y # ys) \<noteq> []"
    using join_nonempty_last [of "y # ys" sep] by simp
  with 3 show ?case by simp
qed simp_all

lemma tidy_trim_join: "tidy ls \<Longrightarrow> trim (join [LF] ls) = join [LF] ls"
proof (cases "ls = []")
  case True
  then show ?thesis by (simp add: trim_def)
next
  case False
  assume "tidy ls"
  with False have t: "hd ls \<noteq> []" "\<not> isWhiteSpace (hd (hd ls))"
    "last ls \<noteq> []" "\<not> isWhiteSpace (last (last ls))"
    by (simp_all add: tidy_def)
  show ?thesis
    by (rule trim_id) (use False t join_nonempty [of ls "[LF]"] join_last [of ls "[LF]"] in simp)
qed

lemma split_join:
  "ls \<noteq> [] \<Longrightarrow> \<forall>l \<in> set ls. c \<notin> set l \<Longrightarrow> split c (join [c] ls) = ls"
proof (induction "[c]" ls rule: join.induct)
  case 1
  then show ?case by simp
next
  case (2 x)
  then show ?case by (simp add: split_notin)
next
  case (3 x y ys)
  then have "split c (join [c] (y # ys)) = y # ys" by simp
  moreover have "join [c] (x # y # ys) = x @ c # join [c] (y # ys)" by simp
  ultimately show ?case
    using 3(3) by (simp only: split_append) (simp add: split_append)
qed

lemma entries_join: "tidy ls \<Longrightarrow> entries (join [LF] ls) = ls"
proof (cases "ls = []")
  case True
  then show ?thesis by (simp add: entries_def trim_def)
next
  case False
  assume t: "tidy ls"
  with False have "join [LF] ls \<noteq> []"
    using join_nonempty [of ls "[LF]"] by (simp add: tidy_def)
  moreover from t have "\<forall>l \<in> set ls. LF \<notin> set l" by (simp add: tidy_def)
  ultimately show ?thesis
    using False t by (simp add: entries_def tidy_trim_join split_join)
qed

lemma updateEntry_Nil_Cons:
  "updateEntry fu srv ([] # rest) s = [] # updateEntry fu srv rest s"
  by (simp add: updateEntry_def Let_def)

lemma foldl_updateEntry_Nil_Cons:
  "foldl (updateEntry fu srv) ([] # rest) ps = [] # foldl (updateEntry fu srv) rest ps"
  by (induction ps arbitrary: rest) (simp_all add: updateEntry_Nil_Cons)

lemma tidy_map_replace:
  "tidy ls \<Longrightarrow> goodline e \<Longrightarrow> tidy (map (\<lambda>v. if P v then e else v) ls)"
  by (cases "ls = []") (auto simp add: tidy_def goodline_def hd_map last_map)

lemma tidy_append: "tidy ls \<Longrightarrow> goodline e \<Longrightarrow> tidy (ls @ [e])"
  by (cases "ls = []") (auto simp add: tidy_def goodline_def)

lemma tidy_updateEntry:
  assumes "tidy ls" and "name s \<notin> set fu" and "\<not> conflict s"
    and "goodline (name s @ ''@'' @ srv @ '':'' @ toStr (lastSyncHash s))"
  shows "tidy (updateEntry fu srv ls s)"
  using assms(1,4) by (simp add: updateEntry_eligible [OF assms(2,3)] tidy_map_replace tidy_append)

lemma updateEntry_nonempty:
  "name s \<notin> set fu \<Longrightarrow> \<not> conflict s \<Longrightarrow> updateEntry fu srv ls s \<noteq> []"
  by (cases ls) (simp_all add: updateEntry_eligible)

lemma updateEntry_keeps_nonempty: "ls \<noteq> [] \<Longrightarrow> updateEntry fu srv ls s \<noteq> []"
  by (simp add: updateEntry_def Let_def)

lemma foldl_updateEntry_keeps_nonempty:
  "ls \<noteq> [] \<Longrightarrow> foldl (updateEntry fu srv) ls ps \<noteq> []"
  by (induction ps arbitrary: ls) (simp_all add: updateEntry_keeps_nonempty)

lemma foldl_updateEntry_tidy:
  assumes "tidy ls"
    and "\<forall>s \<in> set ps. name s \<notin> set fu \<and> \<not> conflict s
           \<and> goodline (name s @ ''@'' @ srv @ '':'' @ toStr (lastSyncHash s))"
  shows "tidy (foldl (updateEntry fu srv) ls ps)"
  using assms by (induction ps arbitrary: ls) (simp_all add: tidy_updateEntry)

lemma foldl_updateEntry_nonempty:
  assumes "ps \<noteq> []" and "\<forall>s \<in> set ps. name s \<notin> set fu \<and> \<not> conflict s"
  shows "foldl (updateEntry fu srv) ls ps \<noteq> []"
proof -
  obtain s rest where ps: "ps = s # rest" using assms(1) by (cases ps) auto
  with assms(2) have "updateEntry fu srv ls s \<noteq> []"
    by (simp add: updateEntry_nonempty)
  then show ?thesis
    unfolding ps by (simp add: foldl_updateEntry_keeps_nonempty)
qed

lemma update_entries:
  assumes "truthy (rootPath w)" and "writable w" and "cacheFile w = Content c"
    and "confForceUpload w = Some fu" and "ps \<noteq> []"
    and good: "\<forall>s \<in> set ps. name s \<notin> set fu \<and> \<not> conflict s
           \<and> goodline (name s @ ''@'' @ srv @ '':'' @ toStr (lastSyncHash s))"
  shows "updateHashValues w ps srv
           = w\<lparr>cacheFile := Content (join [LF] (foldl (updateEntry fu srv) (entries c) ps))\<rparr>"
proof -
  let ?R = "foldl (updateEntry fu srv) (entries c) ps"
  have t: "tidy ?R"
    using tidy_entries good by (rule foldl_updateEntry_tidy)
  have ne: "?R \<noteq> []"
    using assms(5) good by (simp add: foldl_updateEntry_nonempty)
  have "trim (join [LF] (foldl (updateEntry fu srv) (split LF (trim c)) ps)) = join [LF] ?R"
  proof (cases "trim c = []")
    case True
    then have "foldl (updateEntry fu srv) (split LF (trim c)) ps = [] # ?R"
      by (simp add: entries_def foldl_updateEntry_Nil_Cons)
    then show ?thesis
      using ne t by (simp add: join_Nil_Cons trim_LF tidy_trim_join)
  next
    case False
    then show ?thesis
      using t by (simp add: entries_def tidy_trim_join)
  qed
  then show ?thesis
    using assms(1-5) by (simp add: updateHashValues_normal writeFile_writable)
qed

lemma readLine_blank: "readLine srv z [] = z"
  by (simp add: readLine_def)

lemma read_entries:
  assumes "truthy (rootPath w)" and "cacheFile w = Content c" and "confForceUpload w = Some fu"
    and "ps \<noteq> []" and "\<forall>z \<in> set ps. name z \<notin> set fu"
  shows "readHashValues w ps srv
           = Inr (w, map (\<lambda>z. foldl (readLine srv) z (entries c)) ps)"
proof -
  have "readOne fu (split LF (trim c)) srv z = foldl (readLine srv) z (entries c)"
    if "z \<in> set ps" for z
    using that assms(5) by (simp add: readOne_def entries_def readLine_blank)
  then show ?thesis
    using assms(1-4) by (simp add: readHashValues_normal)
qed

lemma foldl_readLine_name: "name (foldl (readLine srv) z L) = name z"
  by (induction L arbitrary: z) (simp_all add: readLine_name)

lemma foldl_readLine_all_same:
  assumes "\<forall>v \<in> set L. hd (split (CHR '':'') v) = k \<longrightarrow> v = e"
    and "\<exists>v \<in> set L. hd (split (CHR '':'') v) = k"
    and "name p @ ''@'' @ srv = k"
    and "at (split (CHR '':'') e) 1 = Some h"
  shows "foldl (readLine srv) p L = p\<lparr>lastSyncHash := Some h\<rparr>"
  using assms(1,2)
proof (induction L rule: rev_induct)
  case Nil
  then show ?case by simp
next
  case (snoc x xs)
  let ?q = "foldl (readLine srv) p xs"
  have n: "name ?q @ ''@'' @ srv = k"
    using assms(3) by (simp add: foldl_readLine_name)
  show ?case
  proof (cases "hd (split (CHR '':'') x) = k")
    case True
    with snoc.prems(1) have x: "x = e" by simp
    obtain y where y: "?q = p\<lparr>lastSyncHash := y\<rparr>"
      using foldl_readLine_shape by blast
    have "readLine srv ?q x = ?q\<lparr>lastSyncHash := Some h\<rparr>"
      using True n assms(4) x by (simp add: readLine_match)
    then show ?thesis by (simp add: y)
  next
    case False
    with snoc.prems have "\<forall>v \<in> set xs. hd (split (CHR '':'') v) = k \<longrightarrow> v = e"
      "\<exists>v \<in> set xs. hd (split (CHR '':'') v) = k" by auto
    then have "?q = p\<lparr>lastSyncHash := Some h\<rparr>" by (rule snoc.IH)
    moreover have "readLine srv ?q x = ?q"
      using False n by (simp add: readLine_nomatch)
    ultimately show ?thesis by simp
  qed
qed

lemma updateEntry_set:
  assumes "name s \<notin> set fu" and "\<not> conflict s"
  shows "set (updateEntry fu srv ls s)
           = {v \<in> set ls. hd (split (CHR '':'') v) \<noteq> name s @ ''@'' @ srv}
             \<union> {name s @ ''@'' @ srv @ '':'' @ toStr (lastSyncHash s)}"
  by (auto simp add: updateEntry_eligible [OF assms] list_ex_iff)

lemma foldl_readLine_filter:
  "foldl (readLine srv) z L
     = foldl (readLine srv) z (filter (\<lambda>v. hd (split (CHR '':'') v) = name z @ ''@'' @ srv) L)"
proof (induction L arbitrary: z)
  case Nil
  show ?case by simp
next
  case (Cons x xs)
  show ?case
  proof (cases "hd (split (CHR '':'') x) = name z @ ''@'' @ srv")
    case True
    show ?thesis
      using Cons.IH [of "readLine srv z x"] True by (simp add: readLine_name)
  next
    case False
    then show ?thesis
      using Cons.IH [of z] by (simp add: readLine_nomatch)
  qed
qed

lemma filter_replace_other:
  "f e \<noteq> kz \<Longrightarrow> k \<noteq> kz \<Longrightarrow>
   filter (\<lambda>v. f v = kz) (map (\<lambda>v. if f v = k then e else v) ls) = filter (\<lambda>v. f v = kz) ls"
  by (induction ls) auto

lemma updateEntry_reads_other:
  assumes "name s \<notin> set fu" and "\<not> conflict s"
    and "hd (split (CHR '':'') (name s @ ''@'' @ srv @ '':'' @ toStr (lastSyncHash s)))
           = name s @ ''@'' @ srv"
    and "name z @ ''@'' @ srvz \<noteq> name s @ ''@'' @ srv"
  shows "foldl (readLine srvz) z (updateEntry fu srv ls s) = foldl (readLine srvz) z ls"
proof -
  let ?kz = "name z @ ''@'' @ srvz"
  let ?k = "name s @ ''@'' @ srv"
  let ?e = "name s @ ''@'' @ srv @ '':'' @ toStr (lastSyncHash s)"
  have e: "hd (split (CHR '':'') ?e) \<noteq> ?kz" and k: "?k \<noteq> ?kz"
    using assms(3,4) by simp_all
  have "filter (\<lambda>v. hd (split (CHR '':'') v) = ?kz) (updateEntry fu srv ls s)
          = filter (\<lambda>v. hd (split (CHR '':'') v) = ?kz) ls"
  proof (cases "list_ex (\<lambda>v. hd (split (CHR '':'') v) = ?k) ls")
    case True
    then have "updateEntry fu srv ls s
        = map (\<lambda>v. if hd (split (CHR '':'') v) = ?k then ?e else v) ls"
      by (simp only: updateEntry_eligible [OF assms(1,2)] if_True)
    then show ?thesis
      using filter_replace_other [of "\<lambda>v. hd (split (CHR '':'') v)" ?e ?kz ?k ls, OF e k]
      by simp
  next
    case False
    then have "updateEntry fu srv ls s = ls @ [?e]"
      by (simp only: updateEntry_eligible [OF assms(1,2)] if_False)
    then show ?thesis using e by simp
  qed
  then show ?thesis
    using foldl_readLine_filter [of srvz z "updateEntry fu srv ls s"]
      foldl_readLine_filter [of srvz z ls] by simp
qed

lemma updateEntry_reads_new:
  assumes "name s \<notin> set fu" and "\<not> conflict s"
    and "hd (split (CHR '':'') (name s @ ''@'' @ srv @ '':'' @ toStr (lastSyncHash s)))
           = name s @ ''@'' @ srv"
    and "at (split (CHR '':'') (name s @ ''@'' @ srv @ '':'' @ toStr (lastSyncHash s))) 1 = Some h"
    and "name p = name s"
  shows "foldl (readLine srv) p (updateEntry fu srv ls s) = p\<lparr>lastSyncHash := Some h\<rparr>"
proof (rule foldl_readLine_all_same [where k = "name s @ ''@'' @ srv"
      and e = "name s @ ''@'' @ srv @ '':'' @ toStr (lastSyncHash s)"])
  show "\<forall>v \<in> set (updateEntry fu srv ls s). hd (split (CHR '':'') v) = name s @ ''@'' @ srv
          \<longrightarrow> v = name s @ ''@'' @ srv @ '':'' @ toStr (lastSyncHash s)"
    unfolding updateEntry_set [OF assms(1,2)] by auto
  show "\<exists>v \<in> set (updateEntry fu srv ls s). hd (split (CHR '':'') v) = name s @ ''@'' @ srv"
    unfolding updateEntry_set [OF assms(1,2)] using assms(3) by auto
  show "name p @ ''@'' @ srv = name s @ ''@'' @ srv"
    using assms(5) by simp
  show "at (split (CHR '':'') (name s @ ''@'' @ srv @ '':'' @ toStr (lastSyncHash s))) 1 = Some h"
    by (rule assms(4))
qed

lemma script_entry_facts:
  assumes "CHR '':'' \<notin> set srv" and "LF \<notin> set srv" and "storable h"
    and "lastSyncHash s = Some h"
    and "CHR '':'' \<notin> set (name s)" and "LF \<notin> set (name s)" and "name s \<noteq> []"
    and "\<not> isWhiteSpace (hd (name s))"
  shows "goodline (name s @ ''@'' @ srv @ '':'' @ toStr (lastSyncHash s))"
    and "hd (split (CHR '':'') (name s @ ''@'' @ srv @ '':'' @ toStr (lastSyncHash s)))
           = name s @ ''@'' @ srv"
    and "at (split (CHR '':'') (name s @ ''@'' @ srv @ '':'' @ toStr (lastSyncHash s))) 1 = Some h"
proof -
  note f = entry_facts [OF assms(1,2,3,5,6,7,8)]
  have t: "toStr (lastSyncHash s) = h" using assms(4) by (simp add: toStr_def)
  from assms(3) have h: "LF \<notin> set h" "h = [] \<or> \<not> isWhiteSpace (last h)"
    by (simp_all add: storable_def)
  show "goodline (name s @ ''@'' @ srv @ '':'' @ toStr (lastSyncHash s))"
    unfolding t goodline_def
    using assms(2,6,7,8) h by (auto simp add: LF_def isWhiteSpace_def)
  show "hd (split (CHR '':'') (name s @ ''@'' @ srv @ '':'' @ toStr (lastSyncHash s)))
           = name s @ ''@'' @ srv"
    unfolding t by (rule f(3))
  show "at (split (CHR '':'') (name s @ ''@'' @ srv @ '':'' @ toStr (lastSyncHash s))) 1 = Some h"
    unfolding t by (rule f(4))
qed

lemma distinct_entries:
  "distinct (map f (split LF (trim c))) \<Longrightarrow> distinct (map f (entries c))"
  by (simp add: entries_def)

lemma readOne_exempt: "name s \<in> set fu \<Longrightarrow> readOne fu hv server s = s\<lparr>conflictMode := False\<rparr>"
  by (simp add: readOne_def)

lemma readHashValues_annotates:
  assumes "confForceUpload w = Some fu" and "truthy (rootPath w)" and "cacheFile w \<noteq> EOTHER"
    and "cacheFile w = ENOENT \<longrightarrow> writable w"
  shows "\<exists>w' ps'. readHashValues w pscripts server = Inr (w', ps')
           \<and> length ps' = length pscripts
           \<and> (\<forall>i < length pscripts. name (pscripts ! i) \<in> set fu \<longrightarrow>
                 ps' ! i = (pscripts ! i)\<lparr>conflictMode := False\<rparr>)"
proof (cases "pscripts = []")
  case True
  then show ?thesis by (simp add: readHashValues_def)
next
  case False
  show ?thesis
  proof (cases "cacheFile w")
    case ENOENT
    with assms False have "readHashValues w pscripts server
        = Inr (w\<lparr>cacheFile := Content []\<rparr>, map (readOne fu [] server) pscripts)"
      by (simp add: readHashValues_def annotate_def)
    then show ?thesis by (simp add: readOne_exempt)
  next
    case EOTHER
    with assms(3) show ?thesis by simp
  next
    case (Content c)
    with assms False have "readHashValues w pscripts server
        = Inr (w, map (readOne fu (split LF (trim c)) server) pscripts)"
      by (simp add: readHashValues_normal)
    then show ?thesis by (simp add: readOne_exempt)
  qed
qed

subsection \<open>A dismissed quick pick\<close>

lemma askForUpload_prompt:
  "askForUpload s all none sg = ShowQuickPick answers q \<Longrightarrow> \<not> all \<and> \<not> none \<and> undecided s"
  by (simp add: askForUpload_def undecided_def Let_def split: if_splits)

lemma dismissed_rest:
  assumes "askForUpload (objs mid r) (allFlag mid) (noneFlag mid) sg = ShowQuickPick answers q"
    and "u (length (shown mid)) answers q = None
         \<or> u (length (shown mid)) answers q = Some FORCE_UPLOAD_NONE"
  shows "foldl (reducer u sg) mid (r # post)
     = mid\<lparr>noConflictArr := noConflictArr mid @ filter (\<lambda>x. \<not> undecided (objs mid x)) post,
           noneFlag := True, shown := shown mid @ [(answers, q)]\<rparr>"
proof -
  let ?st = "mid\<lparr>noneFlag := True, shown := shown mid @ [(answers, q)]\<rparr>"
  from assms(1) have a: "\<not> allFlag mid" by (auto dest: askForUpload_prompt)
  have "reducer u sg mid r = ?st"
    using assms by (auto simp add: reducer_def answered_dismiss answered_none)
  moreover have "foldl (reducer u sg) ?st post
      = ?st\<lparr>noConflictArr := noConflictArr ?st @ filter (\<lambda>x. \<not> undecided (objs ?st x)) post\<rparr>"
    by (rule foldl_none_rest) (use a in simp_all)
  ultimately show ?thesis by simp
qed

section \<open>Properties of askForUpload\<close>

text \<open>
  C5 (as stated): every script without \<open>lastSyncHash\<close> is prompted for. This fails once a
  policy flag is set: with \<open>all = True\<close> the promise resolves with FORCE_UPLOAD_ALL and no
  quick pick is shown.
\<close>

theorem C5_counterexample:
  "\<not> is_ShowQuickPick
       (askForUpload \<lparr>name = ''a'', lastSyncHash = None, conflict = False,
                      conflictMode = True, forceUpload = False\<rparr> True False False)"
  by (simp add: askForUpload_def truthy_def)

text \<open>
  C5 (amended): \<open>askForUpload\<close> resolves with NO_CONFLICT exactly when \<open>conflict\<close> is false
  and \<open>lastSyncHash\<close> is set (defined and non-empty, the source's test); it shows a prompt
  exactly when the script is conflicted or has no \<open>lastSyncHash\<close> and both policy flags
  are false. With \<open>all\<close> set it resolves with FORCE_UPLOAD_ALL, else with \<open>none\<close> set
  with FORCE_UPLOAD_NONE, in both cases without a prompt.
\<close>

theorem askForUpload_cases:
  "(askForUpload s all none single = Resolve NO_CONFLICT) =
     (\<not> conflict s \<and> truthy (lastSyncHash s))
   \<and> is_ShowQuickPick (askForUpload s all none single) =
     ((conflict s \<or> \<not> truthy (lastSyncHash s)) \<and> \<not> all \<and> \<not> none)
   \<and> (askForUpload s all none single = Resolve FORCE_UPLOAD_ALL) =
     ((conflict s \<or> \<not> truthy (lastSyncHash s)) \<and> all)
   \<and> (askForUpload s all none single = Resolve FORCE_UPLOAD_NONE) =
     ((conflict s \<or> \<not> truthy (lastSyncHash s)) \<and> \<not> all \<and> none)"
  by (simp add: askForUpload_def Let_def answer_defs)

text \<open>
  C1 (as stated): an exempted script is resolved with NO_CONFLICT, without a prompt, whether
  or not it has a \<open>lastSyncHash\<close>. Counterexample: the script "a" is on the exemption list
  and has no hash; \<open>readHashValues\<close> sets \<open>conflictMode = false\<close> and nothing else, and
  \<open>askForUpload\<close> then shows the quick pick.
\<close>

theorem C1_counterexample:
  "readHashValues (demo_workspace (Content ''a@srv:h'') [''a'']) [new_script ''a'' None] ''srv''
     = Inr (demo_workspace (Content ''a@srv:h'') [''a''],
            [(new_script ''a'' None)\<lparr>conflictMode := False\<rparr>])
   \<and> askForUpload ((new_script ''a'' None)\<lparr>conflictMode := False\<rparr>) False False True
     = ShowQuickPick [FORCE_UPLOAD_YES, FORCE_UPLOAD_NO]
         ''a might have been changed on server, upload anyway?''"
  by (simp add: cache_defs askForUpload_def)


text \<open>
  C1 (amended): \<open>askForUpload\<close> does not read \<open>conflictMode\<close>: a script whose
  \<open>conflictMode\<close> is false is resolved with NO_CONFLICT exactly when its \<open>conflict\<close> is false
  and its \<open>lastSyncHash\<close> is set, and it is prompted for exactly when it is conflicted or
  has no \<open>lastSyncHash\<close> and both flags are false. \<open>readConflictModes\<close>, when the setting
  is an array, sets \<open>conflictMode = false\<close> on every exempted script and changes nothing
  else. \<open>readHashValues\<close> does the same to every exempted script when the setting is an
  array, \<open>rootPath\<close> is set and the cache file can be read, or is missing and can be
  created; it returns all scripts untouched when \<open>rootPath\<close> is unset or the read fails for
  another reason than a missing file; it raises when the missing file cannot be created;
  and when the setting is not an array both functions leave all scripts untouched.
\<close>

theorem exempt_resolution:
  "askForUpload (s\<lparr>conflictMode := m\<rparr>) all none sg = askForUpload s all none sg
   \<and> (askForUpload (s\<lparr>conflictMode := False\<rparr>) all none sg = Resolve NO_CONFLICT)
       = (\<not> conflict s \<and> truthy (lastSyncHash s))
   \<and> is_ShowQuickPick (askForUpload (s\<lparr>conflictMode := False\<rparr>) all none sg)
       = ((conflict s \<or> \<not> truthy (lastSyncHash s)) \<and> \<not> all \<and> \<not> none)
   \<and> (confForceUpload w = Some fu \<longrightarrow>
        readConflictModes w pscripts
          = (w, map (\<lambda>s. if name s \<in> set fu then s\<lparr>conflictMode := False\<rparr> else s) pscripts))
   \<and> (confForceUpload w = Some fu \<and> truthy (rootPath w) \<and> cacheFile w \<noteq> EOTHER
        \<and> (cacheFile w = ENOENT \<longrightarrow> writable w) \<longrightarrow>
        (\<exists>w' ps'. readHashValues w pscripts server = Inr (w', ps')
           \<and> length ps' = length pscripts
           \<and> (\<forall>i < length pscripts. name (pscripts ! i) \<in> set fu \<longrightarrow>
                 ps' ! i = (pscripts ! i)\<lparr>conflictMode := False\<rparr>)))
   \<and> (\<not> truthy (rootPath w) \<or> cacheFile w = EOTHER \<longrightarrow>
        readHashValues w pscripts server = Inr (w, pscripts))
   \<and> (pscripts \<noteq> [] \<and> truthy (rootPath w) \<and> cacheFile w = ENOENT \<and> \<not> writable w \<longrightarrow>
        readHashValues w pscripts server = Inl WriteFileSyncFailed)
   \<and> (confForceUpload w = None \<longrightarrow>
        snd (readConflictModes w pscripts) = pscripts
        \<and> (\<forall>w' ps'. readHashValues w pscripts server = Inr (w', ps') \<longrightarrow> ps' = pscripts))"
proof -
  have ask: "askForUpload (s\<lparr>conflictMode := m\<rparr>) all none sg = askForUpload s all none sg"
    "(askForUpload (s\<lparr>conflictMode := False\<rparr>) all none sg = Resolve NO_CONFLICT)
       = (\<not> conflict s \<and> truthy (lastSyncHash s))"
    "is_ShowQuickPick (askForUpload (s\<lparr>conflictMode := False\<rparr>) all none sg)
       = ((conflict s \<or> \<not> truthy (lastSyncHash s)) \<and> \<not> all \<and> \<not> none)"
    by (simp_all add: askForUpload_def Let_def answer_defs)
  have rcm: "readConflictModes w pscripts
          = (w, map (\<lambda>s. if name s \<in> set fu then s\<lparr>conflictMode := False\<rparr> else s) pscripts)"
    if "confForceUpload w = Some fu"
    using that by (simp add: readConflictModes_def)
  have early: "readHashValues w pscripts server = Inr (w, pscripts)"
    if "\<not> truthy (rootPath w) \<or> cacheFile w = EOTHER"
    using that by (auto simp add: readHashValues_def)
  have raise: "readHashValues w pscripts server = Inl WriteFileSyncFailed"
    if "pscripts \<noteq> []" "truthy (rootPath w)" "cacheFile w = ENOENT" "\<not> writable w"
    using that by (simp add: readHashValues_def)
  have none1: "snd (readConflictModes w pscripts) = pscripts" if "confForceUpload w = None"
    using that by (simp add: readConflictModes_def)
  have none2: "ps' = pscripts"
    if "confForceUpload w = None" "readHashValues w pscripts server = Inr (w', ps')" for w' ps'
    using that
    by (auto simp add: readHashValues_def annotate_def split: if_splits file_state.splits)
  from ask rcm early raise none1 none2
    readHashValues_annotates [of w fu pscripts server]
  show ?thesis by blast
qed

text \<open>
  Witness for C1: an exempted script "a" with the cache file present, missing and
  unreadable, and with the setting not an array; with a hash it is not prompted for,
  without one it is.
\<close>

theorem exempt_resolution_witness:
  "readHashValues (demo_workspace (Content ''a@srv:h'') [''a'']) [new_script ''a'' None] ''srv''
     = Inr (demo_workspace (Content ''a@srv:h'') [''a''],
            [(new_script ''a'' None)\<lparr>conflictMode := False\<rparr>])
   \<and> readHashValues (demo_workspace ENOENT [''a'']) [new_script ''a'' None] ''srv''
     = Inr (demo_workspace (Content []) [''a''],
            [(new_script ''a'' None)\<lparr>conflictMode := False\<rparr>])
   \<and> readHashValues (demo_workspace EOTHER [''a'']) [new_script ''a'' None] ''srv''
     = Inr (demo_workspace EOTHER [''a''], [new_script ''a'' None])
   \<and> readHashValues ((demo_workspace ENOENT [''a''])\<lparr>writable := False\<rparr>)
         [new_script ''a'' None] ''srv''
     = Inl WriteFileSyncFailed
   \<and> confForceUpload ((demo_workspace (Content []) [''a''])\<lparr>confForceUpload := None\<rparr>) = None
   \<and> snd (readConflictModes ((demo_workspace (Content []) [''a''])\<lparr>confForceUpload := None\<rparr>)
           [new_script ''a'' None]) = [new_script ''a'' None]
   \<and> readConflictModes (demo_workspace (Content ''a@srv:h'') [''a'']) [new_script ''a'' None]
       = (demo_workspace (Content ''a@srv:h'') [''a''],
          [(new_script ''a'' None)\<lparr>conflictMode := False\<rparr>])
   \<and> askForUpload ((new_script ''a'' (Some ''k''))\<lparr>conflictMode := False\<rparr>) False False True
       = Resolve NO_CONFLICT
   \<and> is_ShowQuickPick
        (askForUpload ((new_script ''a'' None)\<lparr>conflictMode := False\<rparr>) False False True)"
  using exempt_resolution [where s = "new_script ''a'' (Some ''k'')" and fu = "[''a'']"
      and pscripts = "[new_script ''a'' None]" and server = "''srv''" and all = False
      and none = False and sg = True and w = "demo_workspace (Content ''a@srv:h'') [''a'']"]
    exempt_resolution [where s = "new_script ''a'' None" and fu = "[''a'']"
      and pscripts = "[new_script ''a'' None]" and server = "''srv''" and all = False
      and none = False and sg = True and w = "demo_workspace ENOENT [''a'']"]
    exempt_resolution [where s = "new_script ''a'' None" and fu = "[''a'']"
      and pscripts = "[new_script ''a'' None]" and server = "''srv''" and all = False
      and none = False and sg = True and w = "demo_workspace EOTHER [''a'']"]
    exempt_resolution [where s = "new_script ''a'' None" and fu = "[''a'']"
      and pscripts = "[new_script ''a'' None]" and server = "''srv''" and all = False
      and none = False and sg = True
      and w = "(demo_workspace ENOENT [''a''])\<lparr>writable := False\<rparr>"]
    exempt_resolution [where s = "new_script ''a'' None" and fu = "[''a'']"
      and pscripts = "[new_script ''a'' None]" and server = "''srv''" and all = False
      and none = False and sg = True
      and w = "(demo_workspace (Content []) [''a''])\<lparr>confForceUpload := None\<rparr>"]
  by (simp add: cache_defs askForUpload_def readConflictModes_def answer_defs)

section \<open>Properties of ensureForceUpload\<close>

text \<open>
  C2 (as stated): after FORCE_UPLOAD_ALL every later script is force-uploaded. Counterexample:
  in the batch [s1, s3] with the answer FORCE_UPLOAD_ALL for s1, the later script s3 goes
  to \<open>noConflict\<close>, not to \<open>forceUpload\<close>, and its field \<open>forceUpload\<close> stays false.
\<close>

theorem C2_counterexample:
  "allFlag (foldl (reducer (always (Some FORCE_UPLOAD_ALL)) (1 = length [0, 2 :: nat]))
              (start demo_store) [0])
   \<and> forceUploadArr (ensureForceUpload (always (Some FORCE_UPLOAD_ALL)) demo_store [0, 2]) = [0]
   \<and> noConflictArr (ensureForceUpload (always (Some FORCE_UPLOAD_ALL)) demo_store [0, 2]) = [2]
   \<and> \<not> forceUpload (objs (ensureForceUpload (always (Some FORCE_UPLOAD_ALL)) demo_store [0, 2]) 2)"
  by (simp add: batch_defs)

text \<open>
  C2 (amended): when the flag \<open>all\<close> is set after the scripts \<open>pre\<close> of a batch
  \<open>pre @ post\<close>, it stays set, no further quick pick is shown, and every script of \<open>post\<close>
  that is conflicted or has no \<open>lastSyncHash\<close> is in the returned \<open>forceUpload\<close> array with
  \<open>forceUpload = true\<close> and \<open>conflict = false\<close>, while every other script of \<open>post\<close> is in
  the returned \<open>noConflict\<close> array, unchanged.
\<close>

theorem all_latched_rest:
  assumes "mid = foldl (reducer u (1 = length (pre @ post))) (start h) pre"
    and "allFlag mid"
    and "fin = ensureForceUpload u h (pre @ post)"
  shows "allFlag fin \<and> shown fin = shown mid
         \<and> (\<forall>r \<in> set post.
               if undecided (objs mid r)
               then r \<in> set (forceUploadArr fin) \<and> forceUpload (objs fin r)
                    \<and> \<not> conflict (objs fin r)
               else r \<in> set (noConflictArr fin) \<and> objs fin r = objs mid r)"
proof -
  have fin: "fin = foldl (reducer u (1 = length (pre @ post))) mid post"
    using assms(1,3) by (simp add: ensureForceUpload_def)
  have "allFlag fin"
    unfolding fin using assms(2) by (rule foldl_allFlag_mono)
  moreover have "shown fin = shown mid"
    unfolding fin using assms(2) by (rule foldl_all_shown)
  moreover have "r \<in> set (forceUploadArr fin) \<and> forceUpload (objs fin r)
                    \<and> \<not> conflict (objs fin r)"
    if "r \<in> set post" "undecided (objs mid r)" for r
    unfolding fin using assms(2) that(2,1) by (rule foldl_all_undecided)
  moreover have "r \<in> set (noConflictArr fin) \<and> objs fin r = objs mid r"
    if "r \<in> set post" "\<not> undecided (objs mid r)" for r
    unfolding fin using foldl_all_decided [OF assms(2) that(2)] that(1) by simp
  ultimately show ?thesis by simp
qed

text \<open>Witness for C2: the batch [s1, s2, s3], with FORCE_UPLOAD_ALL answered for s1.\<close>

theorem all_latched_rest_witness:
  "allFlag (foldl (reducer (always (Some FORCE_UPLOAD_ALL)) (1 = length ([0] @ [1, 2 :: nat])))
              (start demo_store) [0])
   \<and> shown (ensureForceUpload (always (Some FORCE_UPLOAD_ALL)) demo_store ([0] @ [1, 2]))
       = [([FORCE_UPLOAD_YES, FORCE_UPLOAD_NO, FORCE_UPLOAD_ALL, FORCE_UPLOAD_NONE],
           ''s1 has been changed on server, upload anyway?'')]
   \<and> 1 \<in> set (forceUploadArr (ensureForceUpload (always (Some FORCE_UPLOAD_ALL)) demo_store ([0] @ [1, 2])))
   \<and> 2 \<in> set (noConflictArr (ensureForceUpload (always (Some FORCE_UPLOAD_ALL)) demo_store ([0] @ [1, 2])))"
proof -
  have a: "allFlag (foldl (reducer (always (Some FORCE_UPLOAD_ALL)) (1 = length ([0] @ [1, 2 :: nat])))
              (start demo_store) [0])"
    by (simp add: batch_defs)
  show ?thesis
    using a all_latched_rest [OF refl a refl] by (simp add: batch_defs)
qed

text \<open>
  C6 (as stated): after the flag \<open>none\<close> is set every later script is dropped from both
  arrays. Counterexample: in the batch [s1, s3] with the quick pick for s1 dismissed, the
  later script s3 is returned in \<open>noConflict\<close>.
\<close>

theorem C6_counterexample:
  "noneFlag (foldl (reducer (always None) (1 = length [0, 2 :: nat])) (start demo_store) [0])
   \<and> noConflictArr (ensureForceUpload (always None) demo_store [0, 2]) = [2]
   \<and> shown (ensureForceUpload (always None) demo_store [0, 2])
       = shown (foldl (reducer (always None) (1 = length [0, 2 :: nat])) (start demo_store) [0])"
  by (simp add: batch_defs)

text \<open>
  C6 (amended): within a batch a flag that is set stays set. When the flag \<open>none\<close> is set
  after the scripts \<open>pre\<close> of a batch \<open>pre @ post\<close>, the flag \<open>all\<close> is not set and stays so,
  no further quick pick is shown, no script object is written to, nothing is added to
  \<open>forceUpload\<close>, and \<open>noConflict\<close> gets exactly the scripts of \<open>post\<close> that are unconflicted
  and carry a \<open>lastSyncHash\<close>: every other script of \<open>post\<close> is dropped.
\<close>

theorem none_latched_rest:
  assumes "mid = foldl (reducer u (1 = length (pre @ post))) (start h) pre"
    and "fin = ensureForceUpload u h (pre @ post)"
  shows "(allFlag st \<longrightarrow> allFlag (reducer u sg st r))
         \<and> (noneFlag st \<longrightarrow> noneFlag (reducer u sg st r))
         \<and> (allFlag mid \<longrightarrow> allFlag fin)
         \<and> (noneFlag mid \<longrightarrow>
               noneFlag fin \<and> \<not> allFlag fin \<and> shown fin = shown mid
               \<and> objs fin = objs mid
               \<and> forceUploadArr fin = forceUploadArr mid
               \<and> noConflictArr fin
                   = noConflictArr mid @ filter (\<lambda>r. \<not> undecided (objs mid r)) post)"
proof -
  have fin: "fin = foldl (reducer u (1 = length (pre @ post))) mid post"
    using assms by (simp add: ensureForceUpload_def)
  have excl: "\<not> (allFlag mid \<and> noneFlag mid)"
    unfolding assms(1) using start_flags by (rule foldl_flags_excl)
  have "allFlag fin" if "allFlag mid"
    unfolding fin using that by (rule foldl_allFlag_mono)
  moreover have "noneFlag fin \<and> \<not> allFlag fin \<and> shown fin = shown mid
               \<and> objs fin = objs mid
               \<and> forceUploadArr fin = forceUploadArr mid
               \<and> noConflictArr fin
                   = noConflictArr mid @ filter (\<lambda>r. \<not> undecided (objs mid r)) post"
    if n: "noneFlag mid"
  proof -
    from n excl have a: "\<not> allFlag mid" by simp
    show ?thesis
      unfolding fin foldl_none_rest [OF n a] using n a by simp
  qed
  ultimately show ?thesis
    by (simp add: reducer_allFlag_mono reducer_noneFlag_mono)
qed

text \<open>
  Witness for C6: the batch [s1, s2, s3], with the quick pick for s1 dismissed; and, for the
  flag \<open>all\<close>, the same batch with FORCE_UPLOAD_ALL answered for s1.
\<close>

theorem none_latched_rest_witness:
  "noneFlag (foldl (reducer (always None) (1 = length ([0] @ [1, 2 :: nat]))) (start demo_store) [0])
   \<and> forceUploadArr (ensureForceUpload (always None) demo_store ([0] @ [1, 2])) = []
   \<and> noConflictArr (ensureForceUpload (always None) demo_store ([0] @ [1, 2])) = [2]
   \<and> length (shown (ensureForceUpload (always None) demo_store ([0] @ [1, 2]))) = 1
   \<and> allFlag (foldl (reducer (always (Some FORCE_UPLOAD_ALL)) (1 = length ([0] @ [1, 2 :: nat])))
               (start demo_store) [0])
   \<and> allFlag (ensureForceUpload (always (Some FORCE_UPLOAD_ALL)) demo_store ([0] @ [1, 2]))"
  using none_latched_rest [OF refl refl, where u = "always None" and pre = "[0]"
      and post = "[1, 2]" and h = demo_store and st = "start demo_store" and sg = False and r = 0]
    none_latched_rest [OF refl refl, where u = "always (Some FORCE_UPLOAD_ALL)" and pre = "[0]"
      and post = "[1, 2]" and h = demo_store and st = "start demo_store" and sg = False and r = 0]
  by (simp add: batch_defs)

text \<open>
  C7: a dismissed quick pick is handled as the answer FORCE_UPLOAD_NONE is. The same state
  results, in which only the flag \<open>none\<close> has been set, and replacing every dismissal by
  that answer changes nothing in the result of a batch. When the quick pick for a script
  \<open>r\<close> of a batch \<open>pre @ r # post\<close> is dismissed (or answered FORCE_UPLOAD_NONE), the batch
  goes on to its end: the result is the state before \<open>r\<close> with the quick pick recorded, the
  flag \<open>none\<close> set, and every script of \<open>post\<close> that is unconflicted and carries a
  \<open>lastSyncHash\<close> appended to \<open>noConflict\<close>; \<open>r\<close> is in neither array and no script object
  is written to. A batch of one script whose quick pick is dismissed returns two empty
  arrays and leaves every script object as it was.
\<close>

theorem dismissed_like_none:
  "answered None r st = answered (Some FORCE_UPLOAD_NONE) r st
   \<and> answered None r st = st\<lparr>noneFlag := True\<rparr>
   \<and> ensureForceUpload
        (\<lambda>k a q. case u k a q of None \<Rightarrow> Some FORCE_UPLOAD_NONE | Some v \<Rightarrow> Some v) h scripts
       = ensureForceUpload u h scripts
   \<and> (mid = foldl (reducer u (1 = length (pre @ r # post))) (start h) pre
        \<and> askForUpload (objs mid r) (allFlag mid) (noneFlag mid) (1 = length (pre @ r # post))
            = ShowQuickPick answers q
        \<and> (u (length (shown mid)) answers q = None
             \<or> u (length (shown mid)) answers q = Some FORCE_UPLOAD_NONE) \<longrightarrow>
      ensureForceUpload u h (pre @ r # post)
        = mid\<lparr>noConflictArr := noConflictArr mid @ filter (\<lambda>x. \<not> undecided (objs mid x)) post,
              noneFlag := True, shown := shown mid @ [(answers, q)]\<rparr>)
   \<and> (askForUpload (h r) False False True = ShowQuickPick answers q
        \<and> u 0 answers q = None \<longrightarrow>
      ensureForceUpload u h [r] = (start h)\<lparr>noneFlag := True, shown := [(answers, q)]\<rparr>)"
proof -
  have rest: "ensureForceUpload u h (pre @ r # post)
        = mid\<lparr>noConflictArr := noConflictArr mid @ filter (\<lambda>x. \<not> undecided (objs mid x)) post,
              noneFlag := True, shown := shown mid @ [(answers, q)]\<rparr>"
    if "mid = foldl (reducer u (1 = length (pre @ r # post))) (start h) pre"
      "askForUpload (objs mid r) (allFlag mid) (noneFlag mid) (1 = length (pre @ r # post))
            = ShowQuickPick answers q"
      "u (length (shown mid)) answers q = None
             \<or> u (length (shown mid)) answers q = Some FORCE_UPLOAD_NONE"
  proof -
    have "ensureForceUpload u h (pre @ r # post)
        = foldl (reducer u (1 = length (pre @ r # post))) mid (r # post)"
      unfolding that(1) ensureForceUpload_def by (simp only: foldl_append)
    then show ?thesis
      using dismissed_rest [where u = u and mid = mid and r = r and answers = answers and q = q
          and sg = "1 = length (pre @ r # post)" and post = post, OF that(2,3)]
      by simp
  qed
  have single: "ensureForceUpload u h [r] = (start h)\<lparr>noneFlag := True, shown := [(answers, q)]\<rparr>"
    if "askForUpload (h r) False False True = ShowQuickPick answers q" "u 0 answers q = None"
    using that by (simp add: ensureForceUpload_def reducer_def start_def answered_dismiss)
  have same: "answered None r st = answered (Some FORCE_UPLOAD_NONE) r st"
    by (simp add: answered_dismiss answered_none)
  have latch: "answered None r st = st\<lparr>noneFlag := True\<rparr>"
    by (rule answered_dismiss)
  have batch: "ensureForceUpload
        (\<lambda>k a q. case u k a q of None \<Rightarrow> Some FORCE_UPLOAD_NONE | Some v \<Rightarrow> Some v) h scripts
       = ensureForceUpload u h scripts"
    by (simp add: ensureForceUpload_def reducer_dismiss_as_none)
  from same latch batch rest single show ?thesis by blast
qed

text \<open>
  Witness for C7: the batch [s1] with the quick pick dismissed; and the batch [s2, s1, s3]
  with the first quick pick answered FORCE_UPLOAD_NO and the second dismissed, after which
  s3 still reaches \<open>noConflict\<close>.
\<close>

theorem dismissed_like_none_witness:
  "askForUpload (demo_store 0) False False True
     = ShowQuickPick [FORCE_UPLOAD_YES, FORCE_UPLOAD_NO] ''s1 has been changed on server, upload anyway?''
   \<and> always None 0 [FORCE_UPLOAD_YES, FORCE_UPLOAD_NO] ''s1 has been changed on server, upload anyway?'' = None
   \<and> noConflictArr (ensureForceUpload (always None) demo_store [0]) = []
   \<and> forceUploadArr (ensureForceUpload (always None) demo_store [0]) = []
   \<and> objs (ensureForceUpload (always None) demo_store [0]) = demo_store
   \<and> ensureForceUpload (\<lambda>k a q. if k = 0 then Some FORCE_UPLOAD_NO else None) demo_store [1, 0, 2]
       = (start demo_store)
           \<lparr>noConflictArr := [2], noneFlag := True,
            shown := [([FORCE_UPLOAD_YES, FORCE_UPLOAD_NO, FORCE_UPLOAD_ALL, FORCE_UPLOAD_NONE],
                       ''s2 might have been changed on server, upload anyway?''),
                      ([FORCE_UPLOAD_YES, FORCE_UPLOAD_NO, FORCE_UPLOAD_ALL, FORCE_UPLOAD_NONE],
                       ''s1 has been changed on server, upload anyway?'')]\<rparr>"
proof -
  let ?q = "''s1 has been changed on server, upload anyway?''"
  let ?u = "\<lambda>k (a :: string list) (q :: string). if k = (0 :: nat) then Some FORCE_UPLOAD_NO else None"
  let ?four = "[FORCE_UPLOAD_YES, FORCE_UPLOAD_NO, FORCE_UPLOAD_ALL, FORCE_UPLOAD_NONE]"
  let ?mid = "foldl (reducer ?u (1 = length ([1] @ 0 # [2 :: nat]))) (start demo_store) [1]"
  have a: "askForUpload (demo_store 0) False False True
     = ShowQuickPick [FORCE_UPLOAD_YES, FORCE_UPLOAD_NO] ?q"
    by (simp add: askForUpload_def demo_store_def truthy_def)
  have b: "always None 0 [FORCE_UPLOAD_YES, FORCE_UPLOAD_NO] ?q = None"
    by (simp add: always_def)
  have m: "?mid = (start demo_store)
      \<lparr>shown := [(?four, ''s2 might have been changed on server, upload anyway?'')]\<rparr>"
    by (simp add: batch_defs)
  have c: "askForUpload (objs ?mid 0) (allFlag ?mid) (noneFlag ?mid) (1 = length ([1] @ 0 # [2 :: nat]))
     = ShowQuickPick ?four ?q"
    unfolding m by (simp add: batch_defs)
  have d: "?u (length (shown ?mid)) ?four ?q = None
           \<or> ?u (length (shown ?mid)) ?four ?q = Some FORCE_UPLOAD_NONE"
    unfolding m by simp
  show ?thesis
    using a b c d
      dismissed_like_none [where r = 0 and st = "start demo_store" and u = "always None"
        and h = demo_store and scripts = "[]" and pre = "[]" and post = "[]" and mid = "start demo_store"
        and answers = "[FORCE_UPLOAD_YES, FORCE_UPLOAD_NO]" and q = ?q]
      dismissed_like_none [where r = 0 and st = "start demo_store" and u = ?u
        and h = demo_store and scripts = "[]" and pre = "[1]" and post = "[2]" and mid = ?mid
        and answers = ?four and q = ?q]
    by (simp add: batch_defs)
qed

text \<open>
  C9 (as stated): the two returned arrays are disjoint for every input. Counterexample: the
  input array holds the same object s1 twice and the answer is FORCE_UPLOAD_YES; the first
  visit clears \<open>conflict\<close> and pushes s1 to \<open>forceUpload\<close>, the second visit finds it
  unconflicted and pushes it to \<open>noConflict\<close>.
\<close>

theorem C9_counterexample:
  "noConflictArr (ensureForceUpload (always (Some FORCE_UPLOAD_YES)) demo_store [0, 0]) = [0]
   \<and> forceUploadArr (ensureForceUpload (always (Some FORCE_UPLOAD_YES)) demo_store [0, 0]) = [0]"
  by (simp add: batch_defs)

text \<open>
  C9 (amended): for every input, each element of either returned array is an element of the
  input and the lengths of the two arrays sum to at most the length of the input; when no
  object occurs twice in the input, the two arrays are disjoint.
\<close>

theorem ensureForceUpload_arrays:
  "set (noConflictArr (ensureForceUpload u h scripts)) \<subseteq> set scripts
   \<and> set (forceUploadArr (ensureForceUpload u h scripts)) \<subseteq> set scripts
   \<and> length (noConflictArr (ensureForceUpload u h scripts))
       + length (forceUploadArr (ensureForceUpload u h scripts)) \<le> length scripts
   \<and> (distinct scripts \<longrightarrow>
        set (noConflictArr (ensureForceUpload u h scripts))
          \<inter> set (forceUploadArr (ensureForceUpload u h scripts)) = {})"
proof -
  have "distinct scripts \<Longrightarrow>
        set (noConflictArr (ensureForceUpload u h scripts))
          \<inter> set (forceUploadArr (ensureForceUpload u h scripts)) = {}"
    unfolding ensureForceUpload_def
    by (rule foldl_arrays_disjoint) (simp_all add: start_def)
  then show ?thesis
    using foldl_arrays_subset [of u "1 = length scripts" "start h" scripts]
    by (simp add: ensureForceUpload_def start_def)
qed

text \<open>Witness for C9: the batch [s1, s2, s3], with FORCE_UPLOAD_ALL answered for s1.\<close>

theorem ensureForceUpload_arrays_witness:
  "distinct [0, 1, 2 :: nat]
   \<and> noConflictArr (ensureForceUpload (always (Some FORCE_UPLOAD_ALL)) demo_store [0, 1, 2]) = [2]
   \<and> forceUploadArr (ensureForceUpload (always (Some FORCE_UPLOAD_ALL)) demo_store [0, 1, 2]) = [0, 1]
   \<and> set (noConflictArr (ensureForceUpload (always (Some FORCE_UPLOAD_ALL)) demo_store [0, 1, 2]))
       \<inter> set (forceUploadArr (ensureForceUpload (always (Some FORCE_UPLOAD_ALL)) demo_store [0, 1, 2])) = {}"
  using ensureForceUpload_arrays [of "always (Some FORCE_UPLOAD_ALL)" demo_store "[0, 1, 2]"]
  by (simp add: batch_defs)

section \<open>Properties of the hash cache\<close>

text \<open>
  C4 (the update path): with the cache file missing, \<open>updateHashValues\<close> returns without
  creating the file and without recording the hash, where \<open>readHashValues\<close> creates the
  empty file and goes on with an empty cache.
\<close>

theorem updateHashValues_missing_file:
  "updateHashValues (demo_workspace ENOENT []) [new_script ''a'' (Some ''h1'')] ''srv''
     = demo_workspace ENOENT []
   \<and> readHashValues (demo_workspace ENOENT []) [new_script ''a'' None] ''srv''
     = Inr (demo_workspace (Content []) [], [new_script ''a'' None])"
  by (simp add: cache_defs)

text \<open>
  C3 (as stated): after \<open>updateHashValues\<close> with a script "a" carrying the hash h1,
  \<open>readHashValues\<close> gives back h1. Counterexamples, each on an existing empty cache file:
  the hash "h1:x" is read back as "h1"; with the server "h:1" nothing is read back; a hash
  with a line feed is read back up to it; a hash ending in a space is read back without
  it; with a line feed in the server nothing is read back; and nothing is read back when
  the write fails, when the file cannot be read, when \<open>rootPath\<close> is unset, or when
  the setting is not an array.
\<close>

theorem C3_counterexample:
  "readHashValues
     (updateHashValues (demo_workspace (Content []) []) [new_script ''a'' (Some ''h1:x'')] ''srv'')
     [new_script ''a'' None] ''srv''
   = Inr (demo_workspace (Content ''a@srv:h1:x'') [], [new_script ''a'' (Some ''h1'')])
   \<and> readHashValues
     (updateHashValues (demo_workspace (Content []) []) [new_script ''a'' (Some ''h1'')] ''h:1'')
     [new_script ''a'' None] ''h:1''
   = Inr (demo_workspace (Content ''a@h:1:h1'') [], [new_script ''a'' None])
   \<and> readHashValues
     (updateHashValues (demo_workspace (Content []) []) [new_script ''a'' (Some ''h\<newline>1'')] ''srv'')
     [new_script ''a'' None] ''srv''
   = Inr (demo_workspace (Content ''a@srv:h\<newline>1'') [], [new_script ''a'' (Some ''h'')])
   \<and> readHashValues
     (updateHashValues (demo_workspace (Content []) []) [new_script ''a'' (Some ''h1 '')] ''srv'')
     [new_script ''a'' None] ''srv''
   = Inr (demo_workspace (Content ''a@srv:h1'') [], [new_script ''a'' (Some ''h1'')])
   \<and> readHashValues
     (updateHashValues (demo_workspace (Content []) []) [new_script ''a'' (Some ''h1'')] ''s\<newline>t'')
     [new_script ''a'' None] ''s\<newline>t''
   = Inr (demo_workspace (Content ''a@s\<newline>t:h1'') [], [new_script ''a'' None])
   \<and> readHashValues
     (updateHashValues ((demo_workspace (Content []) [])\<lparr>writable := False\<rparr>)
        [new_script ''a'' (Some ''h1'')] ''srv'')
     [new_script ''a'' None] ''srv''
   = Inr ((demo_workspace (Content []) [])\<lparr>writable := False\<rparr>, [new_script ''a'' None])
   \<and> readHashValues
     (updateHashValues (demo_workspace EOTHER []) [new_script ''a'' (Some ''h1'')] ''srv'')
     [new_script ''a'' None] ''srv''
   = Inr (demo_workspace EOTHER [], [new_script ''a'' None])
   \<and> readHashValues
     (updateHashValues ((demo_workspace (Content []) [])\<lparr>rootPath := None\<rparr>)
        [new_script ''a'' (Some ''h1'')] ''srv'')
     [new_script ''a'' None] ''srv''
   = Inr ((demo_workspace (Content []) [])\<lparr>rootPath := None\<rparr>, [new_script ''a'' None])
   \<and> readHashValues
     (updateHashValues ((demo_workspace (Content []) [])\<lparr>confForceUpload := None\<rparr>)
        [new_script ''a'' (Some ''h1'')] ''srv'')
     [new_script ''a'' None] ''srv''
   = Inr ((demo_workspace (Content []) [])
            \<lparr>confForceUpload := None,
              warnings := [''Cannot write to settings.json'', ''Cannot write to settings.json'']\<rparr>,
          [new_script ''a'' None])"
  by (simp add: cache_defs)

text \<open>
  C3 (amended): let the cache file exist with any content and be writable, let \<open>rootPath\<close>
  be set and the exemption list be an array holding neither "a" nor "b", let \<open>srv\<close> have
  no colon and no line feed, and let the hashes have no colon and no line feed and not
  end in white space. Then after \<open>updateHashValues\<close> with "a" carrying h1,
  \<open>readHashValues\<close> gives h1 for "a"; after a second \<open>updateHashValues\<close> with "a" carrying
  h2 and "b" carrying h3, \<open>readHashValues\<close> gives h2 for "a" and h3 for "b". What is read
  for any other identity \<open>name@server\<close> is the same before and after both updates. The
  lines of the file after the first update are those of the trimmed file before it, with
  every line of \<open>a@srv\<close> replaced in place by \<open>a@srv:h1\<close>, or with that line appended when
  there was none (and that line alone when the file was blank); the second update replaces
  the lines of \<open>a@srv\<close> in place and replaces those of \<open>b@srv\<close> in place or appends one. When
  the first fields of the lines are pairwise different before, they are so after each
  update.
\<close>

theorem cache_round_trip:
  assumes w: "truthy (rootPath w)" "writable w" "cacheFile w = Content c"
      "confForceUpload w = Some fu"
    and fu: "''a'' \<notin> set fu" "''b'' \<notin> set fu"
    and srv: "CHR '':'' \<notin> set srv" "LF \<notin> set srv"
    and h: "storable h1" "storable h2" "storable h3"
    and a1: "name a1 = ''a''" "lastSyncHash a1 = Some h1" "\<not> conflict a1"
    and a2: "name a2 = ''a''" "lastSyncHash a2 = Some h2" "\<not> conflict a2"
    and b2: "name b2 = ''b''" "lastSyncHash b2 = Some h3" "\<not> conflict b2"
    and pq: "name p = ''a''" "name q = ''b''"
    and z: "name z \<notin> set fu" "name z @ ''@'' @ srvz \<noteq> ''a@'' @ srv"
      "name z @ ''@'' @ srvz \<noteq> ''b@'' @ srv"
    and w1: "w1 = updateHashValues w [a1] srv"
    and w2: "w2 = updateHashValues w1 [a2, b2] srv"
  shows "readHashValues w1 [p] srv = Inr (w1, [p\<lparr>lastSyncHash := Some h1\<rparr>])
     \<and> readHashValues w2 [p, q] srv
         = Inr (w2, [p\<lparr>lastSyncHash := Some h2\<rparr>, q\<lparr>lastSyncHash := Some h3\<rparr>])
     \<and> (\<exists>z'. readHashValues w [z] srvz = Inr (w, [z'])
            \<and> readHashValues w1 [z] srvz = Inr (w1, [z'])
            \<and> readHashValues w2 [z] srvz = Inr (w2, [z']))
     \<and> (\<exists>c1 c2. cacheFile w1 = Content c1 \<and> cacheFile w2 = Content c2
          \<and> split LF c1 =
              (if trim c = [] then [''a@'' @ srv @ '':'' @ h1]
               else if list_ex (\<lambda>v. hd (split (CHR '':'') v) = ''a@'' @ srv) (split LF (trim c))
               then map (\<lambda>v. if hd (split (CHR '':'') v) = ''a@'' @ srv
                              then ''a@'' @ srv @ '':'' @ h1 else v) (split LF (trim c))
               else split LF (trim c) @ [''a@'' @ srv @ '':'' @ h1])
          \<and> split LF c2 =
              (let ls = map (\<lambda>v. if hd (split (CHR '':'') v) = ''a@'' @ srv
                                  then ''a@'' @ srv @ '':'' @ h2 else v) (split LF c1)
               in if list_ex (\<lambda>v. hd (split (CHR '':'') v) = ''b@'' @ srv) ls
                  then map (\<lambda>v. if hd (split (CHR '':'') v) = ''b@'' @ srv
                                 then ''b@'' @ srv @ '':'' @ h3 else v) ls
                  else ls @ [''b@'' @ srv @ '':'' @ h3])
          \<and> (distinct (map (\<lambda>v. hd (split (CHR '':'') v)) (split LF (trim c))) \<longrightarrow>
               distinct (map (\<lambda>v. hd (split (CHR '':'') v)) (split LF c1))
               \<and> distinct (map (\<lambda>v. hd (split (CHR '':'') v)) (split LF c2))))"
proof -
  note ws = isWhiteSpace_def LF_def
  \<comment> \<open>the three scripts written\<close>
  have el: "name a1 \<notin> set fu" "name a2 \<notin> set fu" "name b2 \<notin> set fu"
    using fu a1(1) a2(1) b2(1) by simp_all
  have na: "CHR '':'' \<notin> set (name a1)" "LF \<notin> set (name a1)" "name a1 \<noteq> []"
    "\<not> isWhiteSpace (hd (name a1))"
    "CHR '':'' \<notin> set (name a2)" "LF \<notin> set (name a2)" "name a2 \<noteq> []"
    "\<not> isWhiteSpace (hd (name a2))"
    "CHR '':'' \<notin> set (name b2)" "LF \<notin> set (name b2)" "name b2 \<noteq> []"
    "\<not> isWhiteSpace (hd (name b2))"
    by (simp_all add: a1(1) a2(1) b2(1) ws)
  note f1 = script_entry_facts [OF srv h(1) a1(2) na(1-4)]
  note f2 = script_entry_facts [OF srv h(2) a2(2) na(5-8)]
  note f3 = script_entry_facts [OF srv h(3) b2(2) na(9-12)]
  have ck: "CHR '':'' \<notin> set (name a1 @ ''@'' @ srv)" "CHR '':'' \<notin> set (name a2 @ ''@'' @ srv)"
    "CHR '':'' \<notin> set (name b2 @ ''@'' @ srv)"
    using srv(1) by (simp_all add: a1(1) a2(1) b2(1))
  \<comment> \<open>the lines after each update\<close>
  let ?R0 = "entries c"
  let ?R1 = "updateEntry fu srv ?R0 a1"
  let ?L = "updateEntry fu srv ?R1 a2"
  let ?R2 = "updateEntry fu srv ?L b2"
  have t1: "tidy ?R1"
    using tidy_entries el(1) a1(3) f1(1) by (rule tidy_updateEntry)
  have t2: "tidy ?R2"
    using tidy_updateEntry [OF t1 el(2) a2(3) f2(1)] el(3) b2(3) f3(1) by (rule tidy_updateEntry)
  have n1: "?R1 \<noteq> []"
    using el(1) a1(3) by (rule updateEntry_nonempty)
  have n2: "?R2 \<noteq> []"
    using el(3) b2(3) by (rule updateEntry_nonempty)
  have c1: "w1 = w\<lparr>cacheFile := Content (join [LF] ?R1)\<rparr>"
    unfolding w1 using update_entries [OF w, of "[a1]" srv] el(1) a1(3) f1(1) by simp
  have w1': "truthy (rootPath w1)" "writable w1" "cacheFile w1 = Content (join [LF] ?R1)"
    "confForceUpload w1 = Some fu"
    using w by (simp_all add: c1)
  have e1: "entries (join [LF] ?R1) = ?R1"
    using t1 by (rule entries_join)
  have c2: "w2 = w1\<lparr>cacheFile := Content (join [LF] ?R2)\<rparr>"
    unfolding w2 using update_entries [OF w1', of "[a2, b2]" srv] el(2,3) a2(3) b2(3) f2(1) f3(1)
    by (simp add: e1)
  have w2': "truthy (rootPath w2)" "cacheFile w2 = Content (join [LF] ?R2)"
    "confForceUpload w2 = Some fu"
    using w1' by (simp_all add: c2)
  have e2: "entries (join [LF] ?R2) = ?R2"
    using t2 by (rule entries_join)
  have s1: "split LF (join [LF] ?R1) = ?R1"
    using n1 t1 by (simp add: split_join tidy_def)
  have s2: "split LF (join [LF] ?R2) = ?R2"
    using n2 t2 by (simp add: split_join tidy_def)
  \<comment> \<open>what is read for "a" and "b"\<close>
  have p1: "foldl (readLine srv) p ?R1 = p\<lparr>lastSyncHash := Some h1\<rparr>"
    using el(1) a1(3) f1(2,3) by (rule updateEntry_reads_new) (simp add: pq a1)
  have "foldl (readLine srv) p ?L = p\<lparr>lastSyncHash := Some h2\<rparr>"
    using el(2) a2(3) f2(2,3) by (rule updateEntry_reads_new) (simp add: pq a2)
  moreover have "foldl (readLine srv) p ?R2 = foldl (readLine srv) p ?L"
    using el(3) b2(3) f3(2) by (rule updateEntry_reads_other) (simp add: pq b2)
  ultimately have p2: "foldl (readLine srv) p ?R2 = p\<lparr>lastSyncHash := Some h2\<rparr>"
    by simp
  have q2: "foldl (readLine srv) q ?R2 = q\<lparr>lastSyncHash := Some h3\<rparr>"
    using el(3) b2(3) f3(2,3) by (rule updateEntry_reads_new) (simp add: pq b2)
  have r1: "readHashValues w1 [p] srv = Inr (w1, [p\<lparr>lastSyncHash := Some h1\<rparr>])"
    using read_entries [OF w1'(1,3,4), of "[p]" srv] fu(1) p1 by (simp add: e1 pq)
  have r2: "readHashValues w2 [p, q] srv
         = Inr (w2, [p\<lparr>lastSyncHash := Some h2\<rparr>, q\<lparr>lastSyncHash := Some h3\<rparr>])"
    using read_entries [OF w2', of "[p, q]" srv] fu p2 q2 by (simp add: e2 pq)
  \<comment> \<open>what is read for another identity\<close>
  have za: "name z @ ''@'' @ srvz \<noteq> name a1 @ ''@'' @ srv"
    "name z @ ''@'' @ srvz \<noteq> name a2 @ ''@'' @ srv"
    "name z @ ''@'' @ srvz \<noteq> name b2 @ ''@'' @ srv"
    using z(2,3) by (simp_all add: a1(1) a2(1) b2(1))
  have z1: "foldl (readLine srvz) z ?R1 = foldl (readLine srvz) z ?R0"
    using el(1) a1(3) f1(2) za(1) by (rule updateEntry_reads_other)
  have "foldl (readLine srvz) z ?R2 = foldl (readLine srvz) z ?L"
    using el(3) b2(3) f3(2) za(3) by (rule updateEntry_reads_other)
  also have "\<dots> = foldl (readLine srvz) z ?R1"
    using el(2) a2(3) f2(2) za(2) by (rule updateEntry_reads_other)
  finally have z2: "foldl (readLine srvz) z ?R2 = foldl (readLine srvz) z ?R0"
    using z1 by simp
  have rz: "readHashValues w [z] srvz = Inr (w, [foldl (readLine srvz) z ?R0])"
    "readHashValues w1 [z] srvz = Inr (w1, [foldl (readLine srvz) z ?R0])"
    "readHashValues w2 [z] srvz = Inr (w2, [foldl (readLine srvz) z ?R0])"
    using read_entries [OF w(1,3,4), of "[z]" srvz]
      read_entries [OF w1'(1,3,4), of "[z]" srvz] read_entries [OF w2', of "[z]" srvz]
      z(1) z1 z2
    by (simp_all add: e1 e2)
  \<comment> \<open>the lines of the two files\<close>
  have x1: "?R1 =
      (if trim c = [] then [''a@'' @ srv @ '':'' @ h1]
       else if list_ex (\<lambda>v. hd (split (CHR '':'') v) = ''a@'' @ srv) (split LF (trim c))
       then map (\<lambda>v. if hd (split (CHR '':'') v) = ''a@'' @ srv
                      then ''a@'' @ srv @ '':'' @ h1 else v) (split LF (trim c))
       else split LF (trim c) @ [''a@'' @ srv @ '':'' @ h1])"
    by (simp add: updateEntry_eligible [OF el(1) a1(3)] entries_def a1 toStr_def
        del: split.simps)
  have "''a@'' @ srv @ '':'' @ h1 \<in> set ?R1"
    unfolding updateEntry_set [OF el(1) a1(3)] by (simp add: a1 toStr_def)
  moreover have "hd (split (CHR '':'') (''a@'' @ srv @ '':'' @ h1)) = ''a@'' @ srv"
    using f1(2) by (simp add: a1 toStr_def del: split.simps)
  ultimately have ex: "list_ex (\<lambda>v. hd (split (CHR '':'') v) = ''a@'' @ srv) ?R1"
    unfolding list_ex_iff by blast
  have xl: "?L = map (\<lambda>v. if hd (split (CHR '':'') v) = ''a@'' @ srv
                            then ''a@'' @ srv @ '':'' @ h2 else v) ?R1"
    using ex by (simp add: updateEntry_eligible [OF el(2) a2(3)] a2 toStr_def del: split.simps)
  have x2: "?R2 =
      (let ls = map (\<lambda>v. if hd (split (CHR '':'') v) = ''a@'' @ srv
                          then ''a@'' @ srv @ '':'' @ h2 else v) ?R1
       in if list_ex (\<lambda>v. hd (split (CHR '':'') v) = ''b@'' @ srv) ls
          then map (\<lambda>v. if hd (split (CHR '':'') v) = ''b@'' @ srv
                         then ''b@'' @ srv @ '':'' @ h3 else v) ls
          else ls @ [''b@'' @ srv @ '':'' @ h3])"
    unfolding xl [symmetric] Let_def
    by (simp add: updateEntry_eligible [OF el(3) b2(3)] b2 toStr_def del: split.simps)
  have d: "distinct (map (\<lambda>v. hd (split (CHR '':'') v)) ?R1)
           \<and> distinct (map (\<lambda>v. hd (split (CHR '':'') v)) ?R2)"
    if "distinct (map (\<lambda>v. hd (split (CHR '':'') v)) (split LF (trim c)))"
  proof -
    from that have d0: "distinct (map (\<lambda>v. hd (split (CHR '':'') v)) ?R0)"
      by (rule distinct_entries)
    have d1: "distinct (map (\<lambda>v. hd (split (CHR '':'') v)) ?R1)"
      using d0 ck(1) by (rule updateEntry_keys_distinct)
    have "distinct (map (\<lambda>v. hd (split (CHR '':'') v)) ?L)"
      using d1 ck(2) by (rule updateEntry_keys_distinct)
    then have "distinct (map (\<lambda>v. hd (split (CHR '':'') v)) ?R2)"
      using ck(3) by (rule updateEntry_keys_distinct)
    with d1 show ?thesis by simp
  qed
  have files: "\<exists>c1 c2. cacheFile w1 = Content c1 \<and> cacheFile w2 = Content c2
          \<and> split LF c1 =
              (if trim c = [] then [''a@'' @ srv @ '':'' @ h1]
               else if list_ex (\<lambda>v. hd (split (CHR '':'') v) = ''a@'' @ srv) (split LF (trim c))
               then map (\<lambda>v. if hd (split (CHR '':'') v) = ''a@'' @ srv
                              then ''a@'' @ srv @ '':'' @ h1 else v) (split LF (trim c))
               else split LF (trim c) @ [''a@'' @ srv @ '':'' @ h1])
          \<and> split LF c2 =
              (let ls = map (\<lambda>v. if hd (split (CHR '':'') v) = ''a@'' @ srv
                                  then ''a@'' @ srv @ '':'' @ h2 else v) (split LF c1)
               in if list_ex (\<lambda>v. hd (split (CHR '':'') v) = ''b@'' @ srv) ls
                  then map (\<lambda>v. if hd (split (CHR '':'') v) = ''b@'' @ srv
                                 then ''b@'' @ srv @ '':'' @ h3 else v) ls
                  else ls @ [''b@'' @ srv @ '':'' @ h3])
          \<and> (distinct (map (\<lambda>v. hd (split (CHR '':'') v)) (split LF (trim c))) \<longrightarrow>
               distinct (map (\<lambda>v. hd (split (CHR '':'') v)) (split LF c1))
               \<and> distinct (map (\<lambda>v. hd (split (CHR '':'') v)) (split LF c2)))"
    apply (rule exI [of _ "join [LF] ?R1"])
    apply (rule exI [of _ "join [LF] ?R2"])
    apply (simp only: s1 s2 w1'(3) w2'(2))
    using x1 x2 d by blast
  from r1 r2 rz files show ?thesis by blast
qed

text \<open>
  Witness for C3: a cache file holding the line \<open>z@srv:h0\<close>, the server "srv" and the
  hashes "h1", "h2", "h3"; the line of "z" stays and is read as before.
\<close>

theorem cache_round_trip_witness:
  "storable ''h1'' \<and> storable ''h2'' \<and> storable ''h3''
   \<and> updateHashValues (demo_workspace (Content ''z@srv:h0'') []) [new_script ''a'' (Some ''h1'')] ''srv''
       = demo_workspace (Content ''z@srv:h0\<newline>a@srv:h1'') []
   \<and> readHashValues (demo_workspace (Content ''z@srv:h0\<newline>a@srv:h1'') []) [new_script ''a'' None] ''srv''
       = Inr (demo_workspace (Content ''z@srv:h0\<newline>a@srv:h1'') [], [new_script ''a'' (Some ''h1'')])
   \<and> updateHashValues (demo_workspace (Content ''z@srv:h0\<newline>a@srv:h1'') [])
         [new_script ''a'' (Some ''h2''), new_script ''b'' (Some ''h3'')] ''srv''
       = demo_workspace (Content ''z@srv:h0\<newline>a@srv:h2\<newline>b@srv:h3'') []
   \<and> readHashValues (demo_workspace (Content ''z@srv:h0\<newline>a@srv:h2\<newline>b@srv:h3'') [])
         [new_script ''a'' None, new_script ''b'' None] ''srv''
       = Inr (demo_workspace (Content ''z@srv:h0\<newline>a@srv:h2\<newline>b@srv:h3'') [],
              [new_script ''a'' (Some ''h2''), new_script ''b'' (Some ''h3'')])
   \<and> readHashValues (demo_workspace (Content ''z@srv:h0'') []) [new_script ''z'' None] ''srv''
       = Inr (demo_workspace (Content ''z@srv:h0'') [], [new_script ''z'' (Some ''h0'')])
   \<and> readHashValues (demo_workspace (Content ''z@srv:h0\<newline>a@srv:h2\<newline>b@srv:h3'') [])
         [new_script ''z'' None] ''srv''
       = Inr (demo_workspace (Content ''z@srv:h0\<newline>a@srv:h2\<newline>b@srv:h3'') [],
              [new_script ''z'' (Some ''h0'')])
   \<and> distinct (map (\<lambda>v. hd (split (CHR '':'') v)) (split LF (trim ''z@srv:h0'')))
   \<and> distinct (map (\<lambda>v. hd (split (CHR '':'') v))
         (split LF ''z@srv:h0\<newline>a@srv:h2\<newline>b@srv:h3''))"
proof -
  let ?w = "demo_workspace (Content ''z@srv:h0'') []"
  have w: "truthy (rootPath ?w)" "writable ?w" "cacheFile ?w = Content ''z@srv:h0''"
    "confForceUpload ?w = Some []"
    by (simp_all add: demo_workspace_def truthy_def)
  have fu: "''a'' \<notin> set []" "''b'' \<notin> set []"
    by simp_all
  have srv: "CHR '':'' \<notin> set ''srv''" "LF \<notin> set ''srv''"
    by (simp_all add: LF_def)
  have h: "storable ''h1''" "storable ''h2''" "storable ''h3''"
    by (simp_all add: storable_def LF_def isWhiteSpace_def)
  have a1: "name (new_script ''a'' (Some ''h1'')) = ''a''"
    "lastSyncHash (new_script ''a'' (Some ''h1'')) = Some ''h1''"
    "\<not> conflict (new_script ''a'' (Some ''h1''))"
    by (simp_all add: new_script_def)
  have a2: "name (new_script ''a'' (Some ''h2'')) = ''a''"
    "lastSyncHash (new_script ''a'' (Some ''h2'')) = Some ''h2''"
    "\<not> conflict (new_script ''a'' (Some ''h2''))"
    by (simp_all add: new_script_def)
  have b2: "name (new_script ''b'' (Some ''h3'')) = ''b''"
    "lastSyncHash (new_script ''b'' (Some ''h3'')) = Some ''h3''"
    "\<not> conflict (new_script ''b'' (Some ''h3''))"
    by (simp_all add: new_script_def)
  have pq: "name (new_script ''a'' None) = ''a''" "name (new_script ''b'' None) = ''b''"
    by (simp_all add: new_script_def)
  have z: "name (new_script ''z'' None) \<notin> set []"
    "name (new_script ''z'' None) @ ''@'' @ ''srv'' \<noteq> ''a@'' @ ''srv''"
    "name (new_script ''z'' None) @ ''@'' @ ''srv'' \<noteq> ''b@'' @ ''srv''"
    by (simp_all add: new_script_def)
  show ?thesis
    using h cache_round_trip [OF w fu srv h a1 a2 b2 pq z refl refl]
    by (simp add: cache_defs)
qed

text \<open>
  C8: the array of lines that \<open>updateHashValues\<close> writes is the one it would write for the
  scripts that are neither exempted nor conflicted alone, and so is the file written. When
  every script is exempted or conflicted (whatever its \<open>lastSyncHash\<close>), the array of lines
  stays as it was read, and the cache file keeps its content, at most trimmed.
\<close>

theorem updateHashValues_skips:
  "foldl (updateEntry fu server) hashValues pscripts
     = foldl (updateEntry fu server) hashValues
         (filter (\<lambda>s. name s \<notin> set fu \<and> \<not> conflict s) pscripts)
   \<and> (truthy (rootPath w) \<and> cacheFile w = Content c \<and> confForceUpload w = Some fu
        \<and> writable w \<and> pscripts \<noteq> [] \<longrightarrow>
      cacheFile (updateHashValues w pscripts server)
        = Content (trim (join [LF] (foldl (updateEntry fu server) (split LF (trim c))
            (filter (\<lambda>s. name s \<notin> set fu \<and> \<not> conflict s) pscripts)))))
   \<and> ((\<forall>s \<in> set pscripts. name s \<in> set fu \<or> conflict s) \<longrightarrow>
        foldl (updateEntry fu server) hashValues pscripts = hashValues
        \<and> (cacheFile w = Content c \<and> confForceUpload w = Some fu \<longrightarrow>
             cacheFile (updateHashValues w pscripts server) = Content c
             \<or> cacheFile (updateHashValues w pscripts server) = Content (trim c)))"
proof -
  have a: "foldl (updateEntry fu server) hashValues pscripts
     = foldl (updateEntry fu server) hashValues
         (filter (\<lambda>s. name s \<notin> set fu \<and> \<not> conflict s) pscripts)"
    by (rule foldl_updateEntry_filter)
  have b: "cacheFile (updateHashValues w pscripts server)
        = Content (trim (join [LF] (foldl (updateEntry fu server) (split LF (trim c))
            (filter (\<lambda>s. name s \<notin> set fu \<and> \<not> conflict s) pscripts))))"
    if "truthy (rootPath w)" "cacheFile w = Content c" "confForceUpload w = Some fu"
      "writable w" "pscripts \<noteq> []"
    using that foldl_updateEntry_filter [of fu server "split LF (trim c)" pscripts]
    by (simp add: updateHashValues_normal writeFile_def)
  have c1: "foldl (updateEntry fu server) hv pscripts = hv"
    if "\<forall>s \<in> set pscripts. name s \<in> set fu \<or> conflict s" for hv
    using that by (rule foldl_updateEntry_none)
  have c2: "cacheFile (updateHashValues w pscripts server) = Content c
             \<or> cacheFile (updateHashValues w pscripts server) = Content (trim c)"
    if "\<forall>s \<in> set pscripts. name s \<in> set fu \<or> conflict s"
      "cacheFile w = Content c" "confForceUpload w = Some fu"
    using updateHashValues_cacheFile [of w pscripts server] that(2,3)
    by (auto simp add: c1 [OF that(1)] join_split trim_idem)
  from a b c1 c2 show ?thesis by blast
qed

text \<open>
  Witness for C8: a conflicted script "a" with a hash and an exempted script "b"; the line
  of "a" stays and no line for "b" is written.
\<close>

theorem updateHashValues_skips_witness:
  "truthy (rootPath (demo_workspace (Content ''a@srv:h1'') [''b'']))
   \<and> writable (demo_workspace (Content ''a@srv:h1'') [''b''])
   \<and> conflict ((new_script ''a'' (Some ''h9''))\<lparr>conflict := True\<rparr>)
   \<and> name (new_script ''b'' (Some ''h8'')) \<in> set [''b'']
   \<and> cacheFile (updateHashValues (demo_workspace (Content ''a@srv:h1'') [''b''])
        [(new_script ''a'' (Some ''h9''))\<lparr>conflict := True\<rparr>, new_script ''b'' (Some ''h8'')]
        ''srv'') = Content ''a@srv:h1''"
proof -
  have h: "\<forall>s \<in> set [(new_script ''a'' (Some ''h9''))\<lparr>conflict := True\<rparr>, new_script ''b'' (Some ''h8'')].
       name s \<in> set [''b''] \<or> conflict s"
    by (simp add: new_script_def)
  show ?thesis
    using h updateHashValues_skips [where fu = "[''b'']" and w = "demo_workspace (Content ''a@srv:h1'') [''b'']"
        and c = "''a@srv:h1''" and server = "''srv''" and hashValues = "[''a@srv:h1'']"
        and pscripts = "[(new_script ''a'' (Some ''h9''))\<lparr>conflict := True\<rparr>, new_script ''b'' (Some ''h8'')]"]
    by (simp add: cache_defs)
qed



end
